theory Spec2Isabelle
  imports Main
begin

section \<open>The data model of main.cpp\<close>

text \<open>
  \<^verbatim>\<open>enum class Cell { Wall, Path }\<close> and \<^verbatim>\<open>struct Position { int row, col; }\<close>.
  \<^verbatim>\<open>Position::operator==\<close> compares both fields, which is HOL equality on the record.

  Coordinates are C++ \<^verbatim>\<open>int\<close>s. Every position the program computes is at most two
  steps away from a position inside the grid, so as long as width and height are below
  \<open>2^31 - 2\<close> no signed arithmetic overflows; the model uses unbounded \<open>int\<close>.
\<close>

datatype Cell = Wall | Path

record Position =
  row :: int
  col :: int

text \<open>The private members \<^verbatim>\<open>_cells\<close>, \<^verbatim>\<open>_width\<close>, \<^verbatim>\<open>_height\<close> of \<^verbatim>\<open>class Grid\<close>.\<close>

record Grid =
  cells :: "Cell list list"
  width :: int
  height :: int

text \<open>
  What can go wrong at run time: the \<^verbatim>\<open>assert\<close> of \<^verbatim>\<open>cellAtPosition\<close>, a
  \<^verbatim>\<open>std::vector::operator[]\<close> outside the vector (undefined behaviour in C++, an
  explicit failure here), and \<^verbatim>\<open>rand() % 0\<close>.
\<close>

datatype error = AssertionFailed | IndexOutOfRange | DivisionByZero

text \<open>
  The constructor \<^verbatim>\<open>Grid::Grid(int width, int height)\<close>: \<open>height\<close> rows of \<open>width\<close>
  walls. Both \<^verbatim>\<open>for\<close> loops run zero times on a non-positive bound, as \<open>nat\<close> does.
\<close>

definition Grid_new :: "int \<Rightarrow> int \<Rightarrow> Grid" where
  "Grid_new w h = \<lparr>cells = replicate (nat h) (replicate (nat w) Wall), width = w, height = h\<rparr>"

definition isPositionInGrid :: "Grid \<Rightarrow> Position \<Rightarrow> bool" where
  "isPositionInGrid g pos \<longleftrightarrow>
     row pos \<ge> 0 \<and> row pos < height g \<and> col pos \<ge> 0 \<and> col pos < width g"

text \<open>
  \<^verbatim>\<open>Cell& Grid::cellAtPosition(Position pos)\<close> returns a reference; the program reads
  through it (\<open>cellAtPosition\<close>) and assigns through it (\<open>cellAtPosition_assign\<close>).
  Both start with the same assertion and the same two vector subscripts.
\<close>

definition cellAtPosition :: "Grid \<Rightarrow> Position \<Rightarrow> error + Cell" where
  "cellAtPosition g pos =
     (if \<not> isPositionInGrid g pos then Inl AssertionFailed
      else if nat (row pos) < length (cells g)
              \<and> nat (col pos) < length (cells g ! nat (row pos))
      then Inr (cells g ! nat (row pos) ! nat (col pos))
      else Inl IndexOutOfRange)"

definition cellAtPosition_assign :: "Grid \<Rightarrow> Position \<Rightarrow> Cell \<Rightarrow> error + Grid" where
  "cellAtPosition_assign g pos c =
     (if \<not> isPositionInGrid g pos then Inl AssertionFailed
      else if nat (row pos) < length (cells g)
              \<and> nat (col pos) < length (cells g ! nat (row pos))
      then Inr (g\<lparr>cells := (cells g)[nat (row pos) :=
                    (cells g ! nat (row pos))[nat (col pos) := c]]\<rparr>)
      else Inl IndexOutOfRange)"

text \<open>
  One of the four blocks of \<^verbatim>\<open>frontierCellsForPositionMatchingCell\<close>:
  \<^verbatim>\<open>if (isPositionInGrid(p) && cellAtPosition(p) == cell) frontier.push_back(p);\<close>
  The \<^verbatim>\<open>&&\<close> evaluates the cell only for a position inside the grid.
\<close>

definition pushIfMatching :: "Grid \<Rightarrow> Position \<Rightarrow> Cell \<Rightarrow> Position list \<Rightarrow> error + Position list" where
  "pushIfMatching g p cell frontier =
     (if isPositionInGrid g p then
        (case cellAtPosition g p of
           Inl e \<Rightarrow> Inl e
         | Inr c \<Rightarrow> Inr (if c = cell then frontier @ [p] else frontier))
      else Inr frontier)"

definition frontierCellsForPositionMatchingCell :: "Grid \<Rightarrow> Position \<Rightarrow> Cell \<Rightarrow> error + Position list" where
  "frontierCellsForPositionMatchingCell g pos cell =
     (let leftPos = \<lparr>row = row pos, col = col pos - 2\<rparr> in
      case pushIfMatching g leftPos cell [] of Inl e \<Rightarrow> Inl e | Inr frontier1 \<Rightarrow>
      let rightPos = \<lparr>row = row pos, col = col pos + 2\<rparr> in
      case pushIfMatching g rightPos cell frontier1 of Inl e \<Rightarrow> Inl e | Inr frontier2 \<Rightarrow>
      let topPos = \<lparr>row = row pos - 2, col = col pos\<rparr> in
      case pushIfMatching g topPos cell frontier2 of Inl e \<Rightarrow> Inl e | Inr frontier3 \<Rightarrow>
      let bottomPos = \<lparr>row = row pos + 2, col = col pos\<rparr> in
      pushIfMatching g bottomPos cell frontier3)"

text \<open>
  \<^verbatim>\<open>positionBetweenFrontierAndCell(frontierPos, cellPos)\<close>, with the source's order of
  tests: rows first, then columns, then the fallback for equal positions.
\<close>

definition positionBetweenFrontierAndCell :: "Position \<Rightarrow> Position \<Rightarrow> Position" where
  "positionBetweenFrontierAndCell frontierPos cellPos =
     (if row cellPos < row frontierPos then \<lparr>row = row cellPos + 1, col = col cellPos\<rparr>
      else if row cellPos > row frontierPos then \<lparr>row = row cellPos - 1, col = col cellPos\<rparr>
      else if col cellPos < col frontierPos then \<lparr>row = row cellPos, col = col cellPos + 1\<rparr>
      else if col cellPos > col frontierPos then \<lparr>row = row cellPos, col = col cellPos - 1\<rparr>
      else cellPos)"

section \<open>The generation loop\<close>

text \<open>
  \<^verbatim>\<open>rand()\<close> is a sequence of draws \<open>rnd 0, rnd 1, \<dots>\<close>, each between 0 and
  \<^verbatim>\<open>RAND_MAX\<close> (whatever \<^verbatim>\<open>srand\<close> seeded); the model allows any natural number.
  The number \<open>k\<close> of draws made so far is part of the state.

  One iteration of \<^verbatim>\<open>while (!frontierCells.empty())\<close>, lines 81 to 111. It is entered
  with a non-empty frontier, so \<^verbatim>\<open>rand() % frontierCells.size()\<close> is defined;
  \<^verbatim>\<open>std::remove_if\<close> with \<^verbatim>\<open>erase\<close> is \<open>filter\<close>, and erasing the element at an
  index keeps what is before and after it.
\<close>

definition loopBody :: "(nat \<Rightarrow> nat) \<Rightarrow> Grid \<Rightarrow> Position list \<Rightarrow> nat \<Rightarrow> error + (Grid \<times> Position list \<times> nat)" where
  "loopBody rnd g frontierCells k =
     (let randomFrontierIndex = rnd k mod length frontierCells;
          randomFrontierPos = frontierCells ! randomFrontierIndex in
      case cellAtPosition_assign g randomFrontierPos Path of Inl e \<Rightarrow> Inl e | Inr g1 \<Rightarrow>
      case frontierCellsForPositionMatchingCell g1 randomFrontierPos Path of Inl e \<Rightarrow> Inl e | Inr neighbours \<Rightarrow>
      case (if neighbours \<noteq> [] then
              (let randomNeighbour = neighbours ! (rnd (k + 1) mod length neighbours);
                   inBetweenPos = positionBetweenFrontierAndCell randomNeighbour randomFrontierPos in
               case cellAtPosition_assign g1 inBetweenPos Path of
                 Inl e \<Rightarrow> Inl e
               | Inr g2 \<Rightarrow> Inr (g2, k + 2))
            else Inr (g1, k + 1)) of Inl e \<Rightarrow> Inl e | Inr (g2, k') \<Rightarrow>
      case frontierCellsForPositionMatchingCell g2 randomFrontierPos Wall of Inl e \<Rightarrow> Inl e | Inr newFrontier \<Rightarrow>
      let newFrontier' = filter (\<lambda>p. p \<notin> set frontierCells) newFrontier;
          frontierCells' = frontierCells @ newFrontier' in
      Inr (g2, take randomFrontierIndex frontierCells' @ drop (Suc randomFrontierIndex) frontierCells', k'))"

text \<open>
  Line 73, \<^verbatim>\<open>Position startPos = { rand() % _height, rand() % _width };\<close>. The two
  calls are evaluated left to right (a braced initialiser list). \<^verbatim>\<open>%\<close> truncates,
  and the draw is not negative, so the remainder is the one modulo the absolute value of
  the divisor; a divisor 0 is undefined in C++ and \<open>generateMaze_start\<close> fails on it
  before this is evaluated.
\<close>

definition startPos :: "(nat \<Rightarrow> nat) \<Rightarrow> Grid \<Rightarrow> Position" where
  "startPos rnd g = \<lparr>row = int (rnd 0) mod \<bar>height g\<bar>, col = int (rnd 1) mod \<bar>width g\<bar>\<rparr>"

text \<open>
  Lines 69 to 78 of \<^verbatim>\<open>generateMaze\<close>, up to the loop: the start cell is drawn and
  marked, and its Wall cells two steps away are the first frontier. The result is the
  state in which the loop is entered: the grid, \<^verbatim>\<open>frontierCells\<close> and the number of
  draws made.
\<close>

definition generateMaze_start :: "(nat \<Rightarrow> nat) \<Rightarrow> Grid \<Rightarrow> error + (Grid \<times> Position list \<times> nat)" where
  "generateMaze_start rnd g =
     (if height g = 0 \<or> width g = 0 then Inl DivisionByZero
      else
        let start = startPos rnd g in
        case cellAtPosition_assign g start Path of Inl e \<Rightarrow> Inl e | Inr g1 \<Rightarrow>
        case frontierCellsForPositionMatchingCell g1 start Wall of Inl e \<Rightarrow> Inl e | Inr frontier \<Rightarrow>
        Inr (g1, [] @ frontier, 2))"

section \<open>Printing\<close>

text \<open>
  \<^verbatim>\<open>Grid::print()\<close> writes to \<^verbatim>\<open>std::cout\<close>; the model passes the text written so
  far and returns the grid after the call with the longer text. The wall glyph is the
  three bytes of U+2588 in UTF-8, \<^verbatim>\<open>std::endl\<close> writes a line feed.
\<close>

definition wallGlyph :: string where
  "wallGlyph = [CHR 0xE2, CHR 0x96, CHR 0x88]"

definition print_cell :: "string \<Rightarrow> Cell \<Rightarrow> string" where
  "print_cell out cell = (case cell of Wall \<Rightarrow> out @ wallGlyph | Path \<Rightarrow> out @ '' '')"

definition print_row :: "string \<Rightarrow> Cell list \<Rightarrow> string" where
  "print_row out cellRow = foldl print_cell out cellRow @ [CHR 0x0A]"

definition print :: "Grid \<Rightarrow> string \<Rightarrow> Grid \<times> string" where
  "print g out = (g, foldl print_row out (cells g))"

text \<open>The rendering as the specification words it: one line per row, one glyph per cell.\<close>

definition glyph :: "Cell \<Rightarrow> string" where
  "glyph cell = (case cell of Wall \<Rightarrow> wallGlyph | Path \<Rightarrow> '' '')"

definition render_lines :: "Grid \<Rightarrow> string list" where
  "render_lines g = map (\<lambda>cellRow. concat (map glyph cellRow)) (cells g)"

definition render :: "Grid \<Rightarrow> string" where
  "render g = concat (map (\<lambda>line. line @ [CHR 0x0A]) (render_lines g))"

section \<open>Facts about reading and writing cells\<close>

text \<open>The four positions two steps away, in the order the source visits them.\<close>

definition step2Positions :: "Position \<Rightarrow> Position list" where
  "step2Positions pos =
     [\<lparr>row = row pos, col = col pos - 2\<rparr>, \<lparr>row = row pos, col = col pos + 2\<rparr>,
      \<lparr>row = row pos - 2, col = col pos\<rparr>, \<lparr>row = row pos + 2, col = col pos\<rparr>]"

lemma cellAtPosition_Inr_inGrid:
  "cellAtPosition g p = Inr c \<Longrightarrow> isPositionInGrid g p"
  by (auto simp: cellAtPosition_def split: if_splits)

lemma assign_dims:
  assumes "cellAtPosition_assign g p c = Inr g'"
  shows "width g' = width g" and "height g' = height g"
    and "length (cells g') = length (cells g)"
    and "isPositionInGrid g' q = isPositionInGrid g q"
  using assms by (auto simp: cellAtPosition_assign_def isPositionInGrid_def split: if_splits)

lemma Position_neq_nat:
  fixes p q :: Position
  assumes "p \<noteq> q" "0 \<le> row p" "0 \<le> col p" "0 \<le> row q" "0 \<le> col q"
  shows "nat (row p) \<noteq> nat (row q) \<or> nat (col p) \<noteq> nat (col q)"
  using assms by (cases p, cases q) auto

lemma nth2_update:
  "r < length xss \<Longrightarrow> c < length (xss ! r) \<Longrightarrow>
     xss[r := (xss ! r)[c := v]] ! r' ! c' = (if r' = r \<and> c' = c then v else xss ! r' ! c')"
  by (cases "r' = r") (simp_all add: nth_list_update)

lemma length_nth2_update:
  "length (xss[r := (xss ! r)[c := v]] ! r') = length (xss ! r')"
  by (cases "r < length xss"; cases "r' = r") (simp_all add: list_update_beyond not_less)

lemma assign_read:
  assumes "cellAtPosition_assign g p c = Inr g'"
  shows "cellAtPosition g' q = (if q = p then Inr c else cellAtPosition g q)"
proof -
  from assms have inp: "isPositionInGrid g p"
    and rp: "nat (row p) < length (cells g)"
    and cp: "nat (col p) < length (cells g ! nat (row p))"
    and g': "g' = g\<lparr>cells := (cells g)[nat (row p) := (cells g ! nat (row p))[nat (col p) := c]]\<rparr>"
    by (auto simp: cellAtPosition_assign_def split: if_splits)
  have ing: "isPositionInGrid g' q = isPositionInGrid g q"
    by (simp add: g' isPositionInGrid_def)
  show ?thesis
  proof (cases "isPositionInGrid g q")
    case False
    with ing inp show ?thesis by (auto simp: cellAtPosition_def)
  next
    case True
    have eq: "(nat (row q) = nat (row p) \<and> nat (col q) = nat (col p)) = (q = p)"
      using Position_neq_nat[of q p] True inp by (auto simp: isPositionInGrid_def)
    have "cells g' ! nat (row q) ! nat (col q) =
            (if q = p then c else cells g ! nat (row q) ! nat (col q))"
      unfolding g' using nth2_update[OF rp cp, of c "nat (row q)" "nat (col q)"] eq by simp
    moreover have "length (cells g' ! nat (row q)) = length (cells g ! nat (row q))"
      unfolding g' by (simp add: length_nth2_update)
    moreover have "length (cells g') = length (cells g)" unfolding g' by simp
    ultimately show ?thesis
      using True ing rp cp by (auto simp: cellAtPosition_def)
  qed
qed

lemma pushIfMatching_Inr:
  "pushIfMatching g p cell fr = Inr fr' \<Longrightarrow>
     fr' = fr @ filter (\<lambda>q. cellAtPosition g q = Inr cell) [p]"
  by (auto simp: pushIfMatching_def cellAtPosition_Inr_inGrid split: if_splits sum.splits
      dest: cellAtPosition_Inr_inGrid)

lemma frontierCells_Inr:
  assumes "frontierCellsForPositionMatchingCell g pos cell = Inr fr"
  shows "fr = filter (\<lambda>q. cellAtPosition g q = Inr cell) (step2Positions pos)"
  using assms
  unfolding frontierCellsForPositionMatchingCell_def Let_def step2Positions_def
  by (auto split: sum.splits dest!: pushIfMatching_Inr)

subsection \<open>Each iteration decreases the measure\<close>

lemma finite_inGrid: "finite {p. isPositionInGrid g p}"
proof -
  have "{p. isPositionInGrid g p} \<subseteq>
          (\<lambda>(r, c). \<lparr>row = r, col = c\<rparr>) ` ({0..<height g} \<times> {0..<width g})"
  proof
    fix p assume "p \<in> {p. isPositionInGrid g p}"
    then have "(row p, col p) \<in> {0..<height g} \<times> {0..<width g}"
      by (simp add: isPositionInGrid_def)
    moreover have "p = (\<lambda>(r, c). \<lparr>row = r, col = c\<rparr>) (row p, col p)" by simp
    ultimately show "p \<in> (\<lambda>(r, c). \<lparr>row = r, col = c\<rparr>) ` ({0..<height g} \<times> {0..<width g})"
      by (rule rev_image_eqI)
  qed
  then show ?thesis by (rule finite_subset) simp
qed

definition wallsOutside :: "Grid \<Rightarrow> Position list \<Rightarrow> Position set" where
  "wallsOutside g fr = {p. cellAtPosition g p = Inr Wall \<and> p \<notin> set fr}"

lemma finite_wallsOutside: "finite (wallsOutside g fr)"
  by (rule finite_subset[OF _ finite_inGrid[of g]])
     (auto simp: wallsOutside_def dest: cellAtPosition_Inr_inGrid)

lemma set_erase_index:
  "i < length xs \<Longrightarrow> set xs \<subseteq> insert (xs ! i) (set (take i xs @ drop (Suc i) xs))"
proof -
  assume "i < length xs"
  then have "xs = take i xs @ xs ! i # drop (Suc i) xs" by (rule id_take_nth_drop)
  then have "set xs = set (take i xs @ xs ! i # drop (Suc i) xs)" by simp
  then show ?thesis by auto
qed

text \<open>What one iteration does, for any grid and any non-empty frontier.\<close>

lemma loopBody_Inr:
  assumes "loopBody rnd g fr k = Inr (g', fr', k')"
  defines "i \<equiv> rnd k mod length fr"
  defines "c \<equiv> fr ! i"
  obtains g1 ns where
    "cellAtPosition_assign g c Path = Inr g1"
    "frontierCellsForPositionMatchingCell g1 c Path = Inr ns"
    "ns = [] \<longrightarrow> g' = g1 \<and> k' = k + 1"
    "ns \<noteq> [] \<longrightarrow>
       cellAtPosition_assign g1
         (positionBetweenFrontierAndCell (ns ! (rnd (k + 1) mod length ns)) c) Path = Inr g'
       \<and> k' = k + 2"
    "\<exists>new. frontierCellsForPositionMatchingCell g' c Wall = Inr new \<and>
       fr' = take i (fr @ filter (\<lambda>p. p \<notin> set fr) new)
             @ drop (Suc i) (fr @ filter (\<lambda>p. p \<notin> set fr) new)"
  using assms(1) unfolding loopBody_def Let_def i_def c_def
  by (auto split: sum.splits if_splits prod.splits)

lemma loopBody_grid:
  assumes "loopBody rnd g fr k = Inr (g', fr', k')"
  shows "cellAtPosition g' (fr ! (rnd k mod length fr)) = Inr Path"
    and "cellAtPosition g' q = Inr Wall \<Longrightarrow> cellAtPosition g q = Inr Wall"
    and "cellAtPosition g q = Inr Path \<Longrightarrow> cellAtPosition g' q = Inr Path"
proof -
  from assms obtain g1 ns where
    g1: "cellAtPosition_assign g (fr ! (rnd k mod length fr)) Path = Inr g1"
    and e: "ns = [] \<longrightarrow> g' = g1 \<and> k' = k + 1"
    and ne: "ns \<noteq> [] \<longrightarrow>
       cellAtPosition_assign g1
         (positionBetweenFrontierAndCell (ns ! (rnd (k + 1) mod length ns))
            (fr ! (rnd k mod length fr))) Path = Inr g' \<and> k' = k + 2"
    by (rule loopBody_Inr) blast
  show "cellAtPosition g' (fr ! (rnd k mod length fr)) = Inr Path"
    using e ne assign_read[OF g1] by (cases "ns = []") (auto simp: assign_read)
  show "cellAtPosition g' q = Inr Wall \<Longrightarrow> cellAtPosition g q = Inr Wall"
    using e ne assign_read[OF g1, of q]
    by (cases "ns = []") (auto simp: assign_read split: if_splits)
  show "cellAtPosition g q = Inr Path \<Longrightarrow> cellAtPosition g' q = Inr Path"
    using e ne assign_read[OF g1, of q]
    by (cases "ns = []") (auto simp: assign_read split: if_splits)
qed

lemma loopBody_frontier:
  assumes "loopBody rnd g fr k = Inr (g', fr', k')"
  obtains new where
    "frontierCellsForPositionMatchingCell g' (fr ! (rnd k mod length fr)) Wall = Inr new"
    "fr' = take (rnd k mod length fr) (fr @ filter (\<lambda>p. p \<notin> set fr) new)
             @ drop (Suc (rnd k mod length fr)) (fr @ filter (\<lambda>p. p \<notin> set fr) new)"
  using assms by (rule loopBody_Inr) blast

lemma loopBody_decreases:
  assumes body: "loopBody rnd g fr k = Inr (g', fr', k')" and ne: "fr \<noteq> []"
  shows "card (wallsOutside g' fr') < card (wallsOutside g fr)
         \<or> card (wallsOutside g' fr') = card (wallsOutside g fr) \<and> length fr' < length fr"
proof -
  define i where "i = rnd k mod length fr"
  define c where "c = fr ! i"
  from ne have i: "i < length fr" by (simp add: i_def)
  from body obtain new where
    new: "frontierCellsForPositionMatchingCell g' c Wall = Inr new"
    and fr': "fr' = take i (fr @ filter (\<lambda>p. p \<notin> set fr) new)
                    @ drop (Suc i) (fr @ filter (\<lambda>p. p \<notin> set fr) new)"
    unfolding c_def i_def by (rule loopBody_frontier)
  define new' where "new' = filter (\<lambda>p. p \<notin> set fr) new"
  have cPath: "cellAtPosition g' c = Inr Path"
    unfolding c_def i_def by (rule loopBody_grid(1)[OF body])
  have mono: "cellAtPosition g' q = Inr Wall \<Longrightarrow> cellAtPosition g q = Inr Wall" for q
    by (rule loopBody_grid(2)[OF body])
  have i': "i < length (fr @ new')" using i by simp
  have c': "(fr @ new') ! i = c" using i by (simp add: c_def nth_append)
  have sub: "set (fr @ new') \<subseteq> insert c (set fr')"
    using set_erase_index[OF i'] c' by (simp add: fr' new'_def)
  have len: "length fr' = length fr + length new' - 1"
    using i by (simp add: fr' new'_def)
  have newW: "set new' \<subseteq> wallsOutside g fr"
    using frontierCells_Inr[OF new] mono by (auto simp: new'_def wallsOutside_def)
  have W: "wallsOutside g' fr' \<subseteq> wallsOutside g fr - set new'"
  proof
    fix p assume p: "p \<in> wallsOutside g' fr'"
    then have w: "cellAtPosition g' p = Inr Wall" and nin: "p \<notin> set fr'"
      by (simp_all add: wallsOutside_def)
    from w cPath have "p \<noteq> c" by auto
    with nin sub have "p \<notin> set (fr @ new')" by auto
    with mono[OF w] show "p \<in> wallsOutside g fr - set new'"
      by (simp add: wallsOutside_def)
  qed
  show ?thesis
  proof (cases "new' = []")
    case True
    with len ne have "length fr' < length fr" by (cases fr) simp_all
    moreover from W have "card (wallsOutside g' fr') \<le> card (wallsOutside g fr)"
      by (intro card_mono finite_wallsOutside) auto
    ultimately show ?thesis by linarith
  next
    case False
    then obtain x where x: "x \<in> set new'" by (cases new') auto
    with newW W have "wallsOutside g' fr' \<subset> wallsOutside g fr" by auto
    then have "card (wallsOutside g' fr') < card (wallsOutside g fr)"
      by (intro psubset_card_mono finite_wallsOutside)
    then show ?thesis by simp
  qed
qed

section \<open>The loop and the whole of generateMaze\<close>

text \<open>
  \<^verbatim>\<open>while (!frontierCells.empty()) { ... }\<close>. The recursion ends on every grid and
  every frontier: the Wall cells outside the frontier never become more, and when
  their number stays the same the frontier gets shorter. A failed assertion ends the
  run. \<open>generateLoop_iterations\<close> follows the same recursion and counts the iterations
  started.
\<close>

function generateLoop :: "(nat \<Rightarrow> nat) \<Rightarrow> Grid \<Rightarrow> Position list \<Rightarrow> nat \<Rightarrow> error + (Grid \<times> Position list \<times> nat)" where
  "generateLoop rnd g frontierCells k =
     (if frontierCells \<noteq> [] then
        (case loopBody rnd g frontierCells k of
           Inl e \<Rightarrow> Inl e
         | Inr (g', frontierCells', k') \<Rightarrow> generateLoop rnd g' frontierCells' k')
      else Inr (g, frontierCells, k))"
  by pat_completeness auto
termination
proof (relation "measures [\<lambda>(rnd, g, fr, k). card (wallsOutside g fr), \<lambda>(rnd, g, fr, k). length fr]")
  show "wf (measures [\<lambda>(rnd, g, fr, k). card (wallsOutside g fr), \<lambda>(rnd, g, fr, k). length fr])"
    by simp
next
  fix rnd g frontierCells k x2 g' y frontierCells' k'
  assume "frontierCells \<noteq> []" "loopBody rnd g frontierCells k = Inr x2"
    "(g', y) = x2" "(frontierCells', k') = y"
  then have "loopBody rnd g frontierCells k = Inr (g', frontierCells', k')" by simp
  from loopBody_decreases[OF this \<open>frontierCells \<noteq> []\<close>]
  show "((rnd, g', frontierCells', k'), (rnd, g, frontierCells, k))
          \<in> measures [\<lambda>(rnd, g, fr, k). card (wallsOutside g fr), \<lambda>(rnd, g, fr, k). length fr]"
    by auto
qed

function generateLoop_iterations :: "(nat \<Rightarrow> nat) \<Rightarrow> Grid \<Rightarrow> Position list \<Rightarrow> nat \<Rightarrow> nat" where
  "generateLoop_iterations rnd g frontierCells k =
     (if frontierCells \<noteq> [] then
        (case loopBody rnd g frontierCells k of
           Inl e \<Rightarrow> 1
         | Inr (g', frontierCells', k') \<Rightarrow> 1 + generateLoop_iterations rnd g' frontierCells' k')
      else 0)"
  by pat_completeness auto
termination
proof (relation "measures [\<lambda>(rnd, g, fr, k). card (wallsOutside g fr), \<lambda>(rnd, g, fr, k). length fr]")
  show "wf (measures [\<lambda>(rnd, g, fr, k). card (wallsOutside g fr), \<lambda>(rnd, g, fr, k). length fr])"
    by simp
next
  fix rnd g frontierCells k x2 g' y frontierCells' k'
  assume "frontierCells \<noteq> []" "loopBody rnd g frontierCells k = Inr x2"
    "(g', y) = x2" "(frontierCells', k') = y"
  then have "loopBody rnd g frontierCells k = Inr (g', frontierCells', k')" by simp
  from loopBody_decreases[OF this \<open>frontierCells \<noteq> []\<close>]
  show "((rnd, g', frontierCells', k'), (rnd, g, frontierCells, k))
          \<in> measures [\<lambda>(rnd, g, fr, k). card (wallsOutside g fr), \<lambda>(rnd, g, fr, k). length fr]"
    by auto
qed

declare generateLoop.simps [simp del] generateLoop_iterations.simps [simp del]

lemma generateLoop_Nil [simp]: "generateLoop rnd g [] k = Inr (g, [], k)"
  by (subst generateLoop.simps) simp

lemma generateLoop_step:
  "fr \<noteq> [] \<Longrightarrow>
     generateLoop rnd g fr k =
       (case loopBody rnd g fr k of
          Inl e \<Rightarrow> Inl e
        | Inr (g', fr', k') \<Rightarrow> generateLoop rnd g' fr' k')"
  by (subst generateLoop.simps) simp

lemma generateLoop_iterations_Nil [simp]: "generateLoop_iterations rnd g [] k = 0"
  by (subst generateLoop_iterations.simps) simp

lemma generateLoop_iterations_step:
  "fr \<noteq> [] \<Longrightarrow>
     generateLoop_iterations rnd g fr k =
       (case loopBody rnd g fr k of
          Inl e \<Rightarrow> 1
        | Inr (g', fr', k') \<Rightarrow> 1 + generateLoop_iterations rnd g' fr' k')"
  by (subst generateLoop_iterations.simps) simp

text \<open>
  \<^verbatim>\<open>Grid::generateMaze()\<close>: the set-up, then the loop. The result is the state in
  which the loop is left.
\<close>

definition generateMaze :: "(nat \<Rightarrow> nat) \<Rightarrow> Grid \<Rightarrow> error + (Grid \<times> Position list \<times> nat)" where
  "generateMaze rnd g =
     (case generateMaze_start rnd g of
        Inl e \<Rightarrow> Inl e
      | Inr (g1, frontierCells, k) \<Rightarrow> generateLoop rnd g1 frontierCells k)"

definition generateMaze_iterations :: "(nat \<Rightarrow> nat) \<Rightarrow> Grid \<Rightarrow> nat" where
  "generateMaze_iterations rnd g =
     (case generateMaze_start rnd g of
        Inl e \<Rightarrow> 0
      | Inr (g1, frontierCells, k) \<Rightarrow> generateLoop_iterations rnd g1 frontierCells k)"

section \<open>The invariant of the loop\<close>

subsection \<open>Grids built by the constructor keep their shape\<close>

definition wf_grid :: "Grid \<Rightarrow> bool" where
  "wf_grid g \<longleftrightarrow>
     length (cells g) = nat (height g) \<and> (\<forall>r \<in> set (cells g). length r = nat (width g))"

lemma wf_Grid_new: "wf_grid (Grid_new w h)"
  by (simp add: wf_grid_def Grid_new_def)

lemma wf_in_range:
  assumes "wf_grid g" "isPositionInGrid g p"
  shows "nat (row p) < length (cells g)"
    and "nat (col p) < length (cells g ! nat (row p))"
proof -
  from assms show r: "nat (row p) < length (cells g)"
    by (auto simp: wf_grid_def isPositionInGrid_def)
  then have "cells g ! nat (row p) \<in> set (cells g)" by simp
  with assms show "nat (col p) < length (cells g ! nat (row p))"
    by (auto simp: wf_grid_def isPositionInGrid_def)
qed

lemma wf_read:
  assumes "wf_grid g"
  shows "cellAtPosition g p =
           (if isPositionInGrid g p then Inr (cells g ! nat (row p) ! nat (col p))
            else Inl AssertionFailed)"
  using wf_in_range[OF assms, of p] by (simp add: cellAtPosition_def)

lemma wf_assign:
  assumes "wf_grid g" "isPositionInGrid g p"
  shows "\<exists>g'. cellAtPosition_assign g p c = Inr g'"
  using wf_in_range[OF assms] assms(2) by (simp add: cellAtPosition_assign_def)

lemma assign_wf:
  assumes "cellAtPosition_assign g p c = Inr g'" "wf_grid g"
  shows "wf_grid g'"
proof -
  from assms(1) have g': "g' = g\<lparr>cells := (cells g)[nat (row p) := (cells g ! nat (row p))[nat (col p) := c]]\<rparr>"
    and rp: "nat (row p) < length (cells g)"
    by (auto simp: cellAtPosition_assign_def split: if_splits)
  have "length r = nat (width g)" if "r \<in> set (cells g')" for r
  proof -
    from that obtain j where j: "j < length (cells g')" "r = cells g' ! j"
      by (auto simp: in_set_conv_nth)
    then have "length r = length (cells g ! j)"
      unfolding g' by (simp add: length_nth2_update)
    moreover from j have "cells g ! j \<in> set (cells g)" unfolding g' by simp
    ultimately show ?thesis using assms(2) by (simp add: wf_grid_def)
  qed
  with assms(2) show ?thesis by (simp add: wf_grid_def g')
qed

lemma wf_pushIfMatching:
  assumes "wf_grid g"
  shows "pushIfMatching g p cell fr = Inr (fr @ filter (\<lambda>q. cellAtPosition g q = Inr cell) [p])"
  using assms by (auto simp: pushIfMatching_def wf_read)

lemma wf_frontierCells:
  assumes "wf_grid g"
  shows "frontierCellsForPositionMatchingCell g pos cell =
           Inr (filter (\<lambda>q. cellAtPosition g q = Inr cell) (step2Positions pos))"
  unfolding frontierCellsForPositionMatchingCell_def Let_def step2Positions_def
  by (simp add: wf_pushIfMatching[OF assms])

subsection \<open>Geometry of the step-2 lattice\<close>

definition sameLattice :: "Position \<Rightarrow> Position \<Rightarrow> bool" where
  "sameLattice s p \<longleftrightarrow> row p mod 2 = row s mod 2 \<and> col p mod 2 = col s mod 2"

definition adjacent :: "Position \<Rightarrow> Position \<Rightarrow> bool" where
  "adjacent p q \<longleftrightarrow> \<bar>row p - row q\<bar> + \<bar>col p - col q\<bar> = 1"

lemma adjacent_sym: "adjacent p q \<Longrightarrow> adjacent q p"
  by (simp add: adjacent_def abs_minus_commute)

lemma distinct_step2Positions: "distinct (step2Positions p)"
  by (simp add: step2Positions_def)

lemma step2Positions_sym: "q \<in> set (step2Positions p) \<Longrightarrow> p \<in> set (step2Positions q)"
  by (cases p) (auto simp: step2Positions_def)

lemma step2Positions_neq: "q \<in> set (step2Positions p) \<Longrightarrow> q \<noteq> p"
  by (cases p) (auto simp: step2Positions_def)

lemma step2Positions_lattice:
  "q \<in> set (step2Positions p) \<Longrightarrow> sameLattice s q = sameLattice s p"
  by (auto simp: step2Positions_def sameLattice_def)

lemma midpoint_step2:
  assumes "n \<in> set (step2Positions c)"
  shows "adjacent c (positionBetweenFrontierAndCell n c)"
    and "adjacent (positionBetweenFrontierAndCell n c) n"
    and "sameLattice s c \<Longrightarrow> \<not> sameLattice s (positionBetweenFrontierAndCell n c)"
    and "isPositionInGrid g n \<Longrightarrow> isPositionInGrid g c \<Longrightarrow>
           isPositionInGrid g (positionBetweenFrontierAndCell n c)"
  using assms
     apply (auto simp: step2Positions_def positionBetweenFrontierAndCell_def adjacent_def isPositionInGrid_def)
  apply (auto simp: sameLattice_def)
   apply presburger+
  done

subsection \<open>Connectivity through Path cells\<close>

definition pathStep :: "Grid \<Rightarrow> Position \<Rightarrow> Position \<Rightarrow> bool" where
  "pathStep g p q \<longleftrightarrow>
     cellAtPosition g p = Inr Path \<and> cellAtPosition g q = Inr Path \<and> adjacent p q"

definition pathConnected :: "Grid \<Rightarrow> Position \<Rightarrow> Position \<Rightarrow> bool" where
  "pathConnected g p q \<longleftrightarrow> (pathStep g)\<^sup>*\<^sup>* p q"

lemma pathConnected_refl: "pathConnected g p p"
  by (simp add: pathConnected_def)

lemma pathConnected_trans:
  "pathConnected g p q \<Longrightarrow> pathConnected g q r \<Longrightarrow> pathConnected g p r"
  by (simp add: pathConnected_def)

lemma pathConnected_step:
  "cellAtPosition g p = Inr Path \<Longrightarrow> cellAtPosition g q = Inr Path \<Longrightarrow> adjacent p q
     \<Longrightarrow> pathConnected g p q"
  by (simp add: pathConnected_def pathStep_def r_into_rtranclp)

lemma pathStep_sym: "pathStep g p q \<Longrightarrow> pathStep g q p"
  by (simp add: pathStep_def adjacent_sym)

lemma pathConnected_sym:
  assumes "pathConnected g p q"
  shows "pathConnected g q p"
  using assms unfolding pathConnected_def
proof (induction rule: rtranclp_induct)
  case base
  show ?case by simp
next
  case (step y z)
  from step.hyps(2) have "pathStep g z y" by (rule pathStep_sym)
  from this step.IH show ?case by (rule converse_rtranclp_into_rtranclp)
qed

lemma pathConnected_mono:
  assumes mono: "\<And>x. cellAtPosition g x = Inr Path \<Longrightarrow> cellAtPosition g' x = Inr Path"
    and conn: "pathConnected g p q"
  shows "pathConnected g' p q"
  using conn unfolding pathConnected_def
proof (induction rule: rtranclp_induct)
  case base
  show ?case by simp
next
  case (step y z)
  from step.hyps(2) mono have "pathStep g' y z" by (simp add: pathStep_def)
  with step.IH show ?case by (rule rtranclp.rtrancl_into_rtrancl)
qed

subsection \<open>Erasing one index of a duplicate-free vector\<close>

lemma distinct_erase_index:
  "distinct xs \<Longrightarrow> distinct (take i xs @ drop (Suc i) xs)"
  by (simp add: set_take_disj_set_drop_if_distinct)

lemma set_erase_index_distinct:
  assumes "distinct xs" "i < length xs"
  shows "set (take i xs @ drop (Suc i) xs) = set xs - {xs ! i}"
proof -
  from assms(2) have xs: "xs = take i xs @ xs ! i # drop (Suc i) xs"
    by (rule id_take_nth_drop)
  with assms(1) have "distinct (take i xs @ xs ! i # drop (Suc i) xs)" by simp
  then have "xs ! i \<notin> set (take i xs)" "xs ! i \<notin> set (drop (Suc i) xs)" by auto
  moreover have "set xs = set (take i xs) \<union> {xs ! i} \<union> set (drop (Suc i) xs)"
    by (subst xs) auto
  ultimately show ?thesis by auto
qed

subsection \<open>The loop invariant\<close>

text \<open>
  \<open>s\<close> is the start cell. At the head of the loop the grid has the constructor's shape,
  the frontier has no duplicates, each frontier cell is a Wall on the lattice of \<open>s\<close>
  with a Path cell two steps away, and all Path cells are connected.
\<close>

definition loopInv :: "Position \<Rightarrow> Grid \<Rightarrow> Position list \<Rightarrow> bool" where
  "loopInv s g fr \<longleftrightarrow>
     wf_grid g \<and> distinct fr
     \<and> (\<forall>p \<in> set fr. cellAtPosition g p = Inr Wall \<and> sameLattice s p
            \<and> (\<exists>n \<in> set (step2Positions p). cellAtPosition g n = Inr Path))
     \<and> (\<forall>p q. cellAtPosition g p = Inr Path \<longrightarrow> cellAtPosition g q = Inr Path
            \<longrightarrow> pathConnected g p q)"

lemma loopBody_inv:
  fixes rnd :: "nat \<Rightarrow> nat" and k :: nat
  assumes inv: "loopInv s g fr" and ne: "fr \<noteq> []"
  defines "c \<equiv> fr ! (rnd k mod length fr)"
  shows "\<exists>g1 ns g2 fr'.
           cellAtPosition g c = Inr Wall
         \<and> cellAtPosition_assign g c Path = Inr g1
         \<and> frontierCellsForPositionMatchingCell g1 c Path = Inr ns \<and> ns \<noteq> []
         \<and> isPositionInGrid g (positionBetweenFrontierAndCell (ns ! (rnd (k + 1) mod length ns)) c)
         \<and> cellAtPosition_assign g1
              (positionBetweenFrontierAndCell (ns ! (rnd (k + 1) mod length ns)) c) Path = Inr g2
         \<and> loopBody rnd g fr k = Inr (g2, fr', k + 2)
         \<and> loopInv s g2 fr'"
proof -
  define i where "i = rnd k mod length fr"
  have c: "c = fr ! i" by (simp add: c_def i_def)
  from ne have i: "i < length fr" by (simp add: i_def)
  then have cfr: "c \<in> set fr" by (simp add: c)
  from inv have wf: "wf_grid g" and dist: "distinct fr"
    and frW: "\<And>p. p \<in> set fr \<Longrightarrow> cellAtPosition g p = Inr Wall"
    and frL: "\<And>p. p \<in> set fr \<Longrightarrow> sameLattice s p"
    and frN: "\<And>p. p \<in> set fr \<Longrightarrow> \<exists>n \<in> set (step2Positions p). cellAtPosition g n = Inr Path"
    and conn: "\<And>p q. cellAtPosition g p = Inr Path \<Longrightarrow> cellAtPosition g q = Inr Path
                 \<Longrightarrow> pathConnected g p q"
    by (auto simp: loopInv_def)
  have cW: "cellAtPosition g c = Inr Wall" by (rule frW[OF cfr])
  then have cin: "isPositionInGrid g c" by (rule cellAtPosition_Inr_inGrid)
  from wf_assign[OF wf cin] obtain g1 where g1: "cellAtPosition_assign g c Path = Inr g1" by blast
  have wf1: "wf_grid g1" by (rule assign_wf[OF g1 wf])
  have r1: "cellAtPosition g1 q = (if q = c then Inr Path else cellAtPosition g q)" for q
    by (rule assign_read[OF g1])
  define ns where "ns = filter (\<lambda>q. cellAtPosition g1 q = Inr Path) (step2Positions c)"
  have fns: "frontierCellsForPositionMatchingCell g1 c Path = Inr ns"
    by (simp add: wf_frontierCells[OF wf1] ns_def)
  from frN[OF cfr] obtain n0 where "n0 \<in> set (step2Positions c)" "cellAtPosition g n0 = Inr Path"
    by blast
  then have "n0 \<in> set ns" by (simp add: ns_def r1)
  then have nsne: "ns \<noteq> []" by auto
  define n where "n = ns ! (rnd (k + 1) mod length ns)"
  from nsne have "n \<in> set ns" by (simp add: n_def)
  then have n2: "n \<in> set (step2Positions c)" and "cellAtPosition g1 n = Inr Path"
    by (simp_all add: ns_def)
  then have nP: "cellAtPosition g n = Inr Path"
    using step2Positions_neq[OF n2] by (simp add: r1)
  then have nin: "isPositionInGrid g n" by (rule cellAtPosition_Inr_inGrid)
  define m where "m = positionBetweenFrontierAndCell n c"
  have cm: "adjacent c m" and mn: "adjacent m n" and mL: "\<not> sameLattice s m"
    and min: "isPositionInGrid g m"
    unfolding m_def
    using midpoint_step2[OF n2] frL[OF cfr] nin cin by blast+
  have min1: "isPositionInGrid g1 m" using min by (simp add: assign_dims(4)[OF g1])
  from wf_assign[OF wf1 min1] obtain g2 where g2: "cellAtPosition_assign g1 m Path = Inr g2"
    by blast
  have wf2: "wf_grid g2" by (rule assign_wf[OF g2 wf1])
  have r2: "cellAtPosition g2 q = (if q = m \<or> q = c then Inr Path else cellAtPosition g q)" for q
    using assign_read[OF g2, of q] by (simp add: r1)
  define new where "new = filter (\<lambda>q. cellAtPosition g2 q = Inr Wall) (step2Positions c)"
  have fnew: "frontierCellsForPositionMatchingCell g2 c Wall = Inr new"
    by (simp add: wf_frontierCells[OF wf2] new_def)
  define new' where "new' = filter (\<lambda>p. p \<notin> set fr) new"
  define fr' where "fr' = take i (fr @ new') @ drop (Suc i) (fr @ new')"
  have body: "loopBody rnd g fr k = Inr (g2, fr', k + 2)"
    using g1 fns nsne g2 fnew
    unfolding fr'_def new'_def m_def n_def c_def i_def
    by (simp add: loopBody_def Let_def)
  have dist': "distinct (fr @ new')"
    using dist distinct_step2Positions[of c] by (auto simp: new'_def new_def)
  have i': "i < length (fr @ new')" using i by simp
  have ci: "(fr @ new') ! i = c" using i by (simp add: c nth_append)
  have set': "set fr' = set (fr @ new') - {c}"
    unfolding fr'_def using set_erase_index_distinct[OF dist' i'] ci by simp
  have mono: "cellAtPosition g x = Inr Path \<Longrightarrow> cellAtPosition g2 x = Inr Path" for x
    by (simp add: r2)
  have inv1: "cellAtPosition g2 p = Inr Wall \<and> sameLattice s p
              \<and> (\<exists>n \<in> set (step2Positions p). cellAtPosition g2 n = Inr Path)"
    if p: "p \<in> set fr'" for p
  proof (cases "p \<in> set fr")
    case True
    from p have pc: "p \<noteq> c" by (simp add: set')
    from frL[OF True] mL have pm: "p \<noteq> m" by auto
    from frN[OF True] mono have "\<exists>n \<in> set (step2Positions p). cellAtPosition g2 n = Inr Path"
      by blast
    with pc pm frW[OF True] frL[OF True] show ?thesis by (simp add: r2)
  next
    case False
    with p have pn: "p \<in> set new" by (auto simp: set' new'_def)
    then have p2: "p \<in> set (step2Positions c)" and pW: "cellAtPosition g2 p = Inr Wall"
      by (simp_all add: new_def)
    have "c \<in> set (step2Positions p)" by (rule step2Positions_sym[OF p2])
    moreover have "cellAtPosition g2 c = Inr Path" by (simp add: r2)
    ultimately have "\<exists>n \<in> set (step2Positions p). cellAtPosition g2 n = Inr Path" by blast
    with pW step2Positions_lattice[OF p2, of s] frL[OF cfr] show ?thesis by simp
  qed
  have toN: "pathConnected g2 p n" if p: "cellAtPosition g2 p = Inr Path" for p
  proof -
    have nP2: "cellAtPosition g2 n = Inr Path" by (rule mono[OF nP])
    have mP2: "cellAtPosition g2 m = Inr Path" and cP2: "cellAtPosition g2 c = Inr Path"
      by (simp_all add: r2)
    have mTon: "pathConnected g2 m n" by (rule pathConnected_step[OF mP2 nP2 mn])
    have cTom: "pathConnected g2 c m" by (rule pathConnected_step[OF cP2 mP2 cm])
    consider "p = m" | "p = c" | "p \<noteq> m" "p \<noteq> c" by blast
    then show ?thesis
    proof cases
      case 1 with mTon show ?thesis by simp
    next
      case 2 with cTom mTon show ?thesis by (auto intro: pathConnected_trans)
    next
      case 3
      with p have "cellAtPosition g p = Inr Path" by (simp add: r2)
      from conn[OF this nP] show ?thesis by (rule pathConnected_mono[rotated]) (rule mono)
    qed
  qed
  have conn': "pathConnected g2 p q"
    if "cellAtPosition g2 p = Inr Path" "cellAtPosition g2 q = Inr Path" for p q
    using toN[OF that(1)] pathConnected_sym[OF toN[OF that(2)]] by (rule pathConnected_trans)
  have "loopInv s g2 fr'"
    unfolding loopInv_def using wf2 distinct_erase_index[OF dist', of i] inv1 conn'
    by (auto simp: fr'_def)
  with cW g1 fns nsne min g2 body show ?thesis
    unfolding n_def m_def by blast
qed

subsection \<open>The states at the head of the loop\<close>

text \<open>
  The states \<open>(grid, frontierCells, draws made)\<close> in which the test of the
  \<^verbatim>\<open>while\<close> is evaluated during \<open>generateMaze rnd g0\<close>: the one the set-up leaves, and
  the one each completed iteration leaves.
\<close>

inductive atLoopHead :: "(nat \<Rightarrow> nat) \<Rightarrow> Grid \<Rightarrow> Grid \<times> Position list \<times> nat \<Rightarrow> bool"
  for rnd :: "nat \<Rightarrow> nat" and g0 :: Grid where
  enter: "generateMaze_start rnd g0 = Inr st \<Longrightarrow> atLoopHead rnd g0 st"
| iterate: "atLoopHead rnd g0 (g, frontierCells, k) \<Longrightarrow> frontierCells \<noteq> [] \<Longrightarrow>
            loopBody rnd g frontierCells k = Inr st' \<Longrightarrow> atLoopHead rnd g0 st'"

code_pred atLoopHead .

lemma Grid_new_read:
  "cellAtPosition (Grid_new w h) p =
     (if isPositionInGrid (Grid_new w h) p then Inr Wall else Inl AssertionFailed)"
  by (auto simp: wf_read[OF wf_Grid_new]) (auto simp: Grid_new_def isPositionInGrid_def)

lemma startPos_inGrid:
  "0 < w \<Longrightarrow> 0 < h \<Longrightarrow> isPositionInGrid (Grid_new w h) (startPos rnd (Grid_new w h))"
  by (simp add: startPos_def isPositionInGrid_def Grid_new_def)

lemma generateMaze_start_inv:
  fixes rnd :: "nat \<Rightarrow> nat"
  assumes "0 < w" "0 < h"
  defines "g0 \<equiv> Grid_new w h"
  defines "s \<equiv> startPos rnd (Grid_new w h)"
  shows "\<exists>g1 fr. cellAtPosition_assign g0 s Path = Inr g1
           \<and> frontierCellsForPositionMatchingCell g1 s Wall = Inr fr
           \<and> generateMaze_start rnd g0 = Inr (g1, fr, 2)
           \<and> (\<forall>q. cellAtPosition g1 q = (if q = s then Inr Path else cellAtPosition g0 q))
           \<and> loopInv s g1 fr"
proof -
  have sin: "isPositionInGrid g0 s" unfolding g0_def s_def by (rule startPos_inGrid[OF assms(1,2)])
  have wf0: "wf_grid g0" unfolding g0_def by (rule wf_Grid_new)
  from wf_assign[OF wf0 sin] obtain g1 where g1: "cellAtPosition_assign g0 s Path = Inr g1"
    by blast
  have wf1: "wf_grid g1" by (rule assign_wf[OF g1 wf0])
  have r1: "cellAtPosition g1 q = (if q = s then Inr Path else cellAtPosition g0 q)" for q
    by (rule assign_read[OF g1])
  define fr where "fr = filter (\<lambda>q. cellAtPosition g1 q = Inr Wall) (step2Positions s)"
  have ffr: "frontierCellsForPositionMatchingCell g1 s Wall = Inr fr"
    by (simp add: wf_frontierCells[OF wf1] fr_def)
  have start: "generateMaze_start rnd g0 = Inr (g1, fr, 2)"
    using assms(1,2) g1 ffr
    unfolding s_def g0_def
    by (simp add: generateMaze_start_def Let_def Grid_new_def startPos_def)
  have onlyS: "cellAtPosition g1 p = Inr Path \<Longrightarrow> p = s" for p
    by (auto simp: r1 g0_def Grid_new_read split: if_splits)
  have "loopInv s g1 fr"
    unfolding loopInv_def
  proof (intro conjI ballI allI impI)
    show "wf_grid g1" by (rule wf1)
    show "distinct fr" by (simp add: fr_def distinct_step2Positions)
  next
    fix p assume p: "p \<in> set fr"
    then show "cellAtPosition g1 p = Inr Wall" by (simp add: fr_def)
    from p have p2: "p \<in> set (step2Positions s)" by (simp add: fr_def)
    then show "sameLattice s p"
      using step2Positions_lattice[OF p2, of s] by (simp add: sameLattice_def)
    from step2Positions_sym[OF p2] show "\<exists>n\<in>set (step2Positions p). cellAtPosition g1 n = Inr Path"
      by (auto simp: r1)
  next
    fix p q assume "cellAtPosition g1 p = Inr Path" "cellAtPosition g1 q = Inr Path"
    then have "p = s" "q = s" by (auto dest: onlyS)
    then show "pathConnected g1 p q" by (simp add: pathConnected_refl)
  qed
  with g1 ffr start r1 show ?thesis by blast
qed

lemma atLoopHead_inv:
  assumes "0 < w" "0 < h" and "atLoopHead rnd (Grid_new w h) st"
  shows "loopInv (startPos rnd (Grid_new w h)) (fst st) (fst (snd st))"
  using assms(3)
proof (induction rule: atLoopHead.induct)
  case (enter st)
  with generateMaze_start_inv[OF assms(1,2), of rnd] show ?case by auto
next
  case (iterate g frontierCells k st')
  from loopBody_inv[OF _ iterate.hyps(2), of _ g rnd k] iterate.IH iterate.hyps(3)
  show ?case by fastforce
qed

lemma generateLoop_inv:
  assumes "loopInv s g fr"
  shows "\<exists>g' k'. generateLoop rnd g fr k = Inr (g', [], k') \<and> loopInv s g' []
           \<and> (\<forall>q. cellAtPosition g q = Inr Path \<longrightarrow> cellAtPosition g' q = Inr Path)"
  using assms
proof (induction rnd g fr k rule: generateLoop.induct)
  case (1 rnd g fr k)
  show ?case
  proof (cases "fr = []")
    case True
    with "1.prems" show ?thesis by simp
  next
    case False
    from loopBody_inv[OF "1.prems" False, of rnd k] obtain g2 fr' where
      body: "loopBody rnd g fr k = Inr (g2, fr', k + 2)" and inv': "loopInv s g2 fr'"
      by blast
    from "1.IH"[OF False body refl refl inv'] obtain g' k' where
      "generateLoop rnd g2 fr' (k + 2) = Inr (g', [], k')" "loopInv s g' []"
      "\<forall>q. cellAtPosition g2 q = Inr Path \<longrightarrow> cellAtPosition g' q = Inr Path"
      by blast
    with False body loopBody_grid(3)[OF body] show ?thesis
      by (auto simp: generateLoop_step)
  qed
qed

subsection \<open>Concrete draws for examples\<close>

definition constantDraws :: "nat \<Rightarrow> nat \<Rightarrow> nat" where
  "constantDraws v k = v"



subsection \<open>A run on the 3 by 3 grid with every draw 0\<close>

lemma start_3x3:
  "generateMaze_start (constantDraws 0) (Grid_new 3 3) =
     Inr (\<lparr>cells = [[Path, Wall, Wall], [Wall, Wall, Wall], [Wall, Wall, Wall]],
            width = 3, height = 3\<rparr>,
          [\<lparr>row = 0, col = 2\<rparr>, \<lparr>row = 2, col = 0\<rparr>], 2)"
  by code_simp

lemma body_3x3:
  "loopBody (constantDraws 0)
     \<lparr>cells = [[Path, Wall, Wall], [Wall, Wall, Wall], [Wall, Wall, Wall]], width = 3, height = 3\<rparr>
     [\<lparr>row = 0, col = 2\<rparr>, \<lparr>row = 2, col = 0\<rparr>] 2 =
     Inr (\<lparr>cells = [[Path, Path, Path], [Wall, Wall, Wall], [Wall, Wall, Wall]],
            width = 3, height = 3\<rparr>,
          [\<lparr>row = 2, col = 0\<rparr>, \<lparr>row = 2, col = 2\<rparr>], 4)"
  by code_simp

lemma head_3x3_first:
  "atLoopHead (constantDraws 0) (Grid_new 3 3)
     (\<lparr>cells = [[Path, Wall, Wall], [Wall, Wall, Wall], [Wall, Wall, Wall]],
        width = 3, height = 3\<rparr>,
      [\<lparr>row = 0, col = 2\<rparr>, \<lparr>row = 2, col = 0\<rparr>], 2)"
  by (rule atLoopHead.enter[OF start_3x3])

lemma head_3x3_second:
  "atLoopHead (constantDraws 0) (Grid_new 3 3)
     (\<lparr>cells = [[Path, Path, Path], [Wall, Wall, Wall], [Wall, Wall, Wall]],
        width = 3, height = 3\<rparr>,
      [\<lparr>row = 2, col = 0\<rparr>, \<lparr>row = 2, col = 2\<rparr>], 4)"
  by (rule atLoopHead.iterate[OF head_3x3_first _ body_3x3]) simp

lemma run_3x3:
  "generateMaze (constantDraws 0) (Grid_new 3 3) =
     Inr (\<lparr>cells = [[Path, Path, Path], [Path, Wall, Wall], [Path, Path, Path]],
            width = 3, height = 3\<rparr>, [], 8)"
  by code_simp

subsection \<open>Cells only ever change to Path\<close>

lemma assign_Path_changes:
  assumes "cellAtPosition_assign g p Path = Inr g'"
  shows "cellAtPosition g' q = cellAtPosition g q \<or> cellAtPosition g' q = Inr Path"
  by (simp add: assign_read[OF assms])

lemma loopBody_changes:
  assumes "loopBody rnd g fr k = Inr (g', fr', k')"
  shows "cellAtPosition g' q = cellAtPosition g q \<or> cellAtPosition g' q = Inr Path"
proof -
  from assms obtain g1 ns where
    g1: "cellAtPosition_assign g (fr ! (rnd k mod length fr)) Path = Inr g1"
    and e: "ns = [] \<longrightarrow> g' = g1 \<and> k' = k + 1"
    and ne: "ns \<noteq> [] \<longrightarrow>
       cellAtPosition_assign g1
         (positionBetweenFrontierAndCell (ns ! (rnd (k + 1) mod length ns))
            (fr ! (rnd k mod length fr))) Path = Inr g' \<and> k' = k + 2"
    by (rule loopBody_Inr) blast
  show ?thesis
  proof (cases "ns = []")
    case True
    with e assign_Path_changes[OF g1, of q] show ?thesis by simp
  next
    case False
    with ne have "cellAtPosition_assign g1
         (positionBetweenFrontierAndCell (ns ! (rnd (k + 1) mod length ns))
            (fr ! (rnd k mod length fr))) Path = Inr g'" by simp
    from assign_Path_changes[OF this, of q] assign_Path_changes[OF g1, of q]
    show ?thesis by auto
  qed
qed

lemma generateMaze_start_changes:
  assumes "generateMaze_start rnd g = Inr (g1, fr, k)"
  shows "cellAtPosition g1 q = cellAtPosition g q \<or> cellAtPosition g1 q = Inr Path"
  using assms
  by (auto simp: generateMaze_start_def Let_def assign_read split: if_splits sum.splits)

lemma generateLoop_changes:
  assumes "generateLoop rnd g fr k = Inr (g', fr', k')"
  shows "cellAtPosition g' q = cellAtPosition g q \<or> cellAtPosition g' q = Inr Path"
  using assms
proof (induction rnd g fr k rule: generateLoop.induct)
  case (1 rnd g fr k)
  show ?case
  proof (cases "fr = []")
    case True
    with "1.prems" show ?thesis by simp
  next
    case False
    with "1.prems" obtain g2 fr2 k2 where
      body: "loopBody rnd g fr k = Inr (g2, fr2, k2)"
      and rest: "generateLoop rnd g2 fr2 k2 = Inr (g', fr', k')"
      by (auto simp: generateLoop_step split: sum.splits)
    from "1.IH"[OF False body refl refl rest] loopBody_changes[OF body, of q]
    show ?thesis by auto
  qed
qed

subsection \<open>Grids too small for a step of two\<close>

lemma small_grid_no_step2:
  assumes "w \<le> 2" "h \<le> 2"
  shows "\<forall>p. isPositionInGrid (Grid_new w h) p \<longrightarrow>
           (\<forall>q \<in> set (step2Positions p). \<not> isPositionInGrid (Grid_new w h) q)"
  using assms by (auto simp: isPositionInGrid_def Grid_new_def step2Positions_def)

subsection \<open>What print writes\<close>

lemma foldl_print_cell: "foldl print_cell out cellRow = out @ concat (map glyph cellRow)"
  by (induction cellRow arbitrary: out) (auto simp: print_cell_def glyph_def split: Cell.splits)

lemma foldl_print_row:
  "foldl print_row out rows =
     out @ concat (map (\<lambda>line. line @ [CHR 0x0A]) (map (\<lambda>cellRow. concat (map glyph cellRow)) rows))"
  by (induction rows arbitrary: out) (auto simp: print_row_def foldl_print_cell)

lemma print_render: "print g out = (g, out @ render g)"
  by (simp add: print_def render_def render_lines_def foldl_print_row)

lemma loopBody_dims:
  assumes "loopBody rnd g fr k = Inr (g', fr', k')"
  shows "width g' = width g \<and> height g' = height g"
proof -
  from assms obtain g1 ns where
    g1: "cellAtPosition_assign g (fr ! (rnd k mod length fr)) Path = Inr g1"
    and e: "ns = [] \<longrightarrow> g' = g1 \<and> k' = k + 1"
    and ne: "ns \<noteq> [] \<longrightarrow>
       cellAtPosition_assign g1
         (positionBetweenFrontierAndCell (ns ! (rnd (k + 1) mod length ns))
            (fr ! (rnd k mod length fr))) Path = Inr g' \<and> k' = k + 2"
    by (rule loopBody_Inr) blast
  show ?thesis
  proof (cases "ns = []")
    case True
    with e assign_dims(1,2)[OF g1] show ?thesis by simp
  next
    case False
    with ne have "cellAtPosition_assign g1
         (positionBetweenFrontierAndCell (ns ! (rnd (k + 1) mod length ns))
            (fr ! (rnd k mod length fr))) Path = Inr g'" by simp
    from assign_dims(1,2)[OF this] assign_dims(1,2)[OF g1] show ?thesis by simp
  qed
qed

lemma generateLoop_dims:
  assumes "generateLoop rnd g fr k = Inr (g', fr', k')"
  shows "width g' = width g \<and> height g' = height g"
  using assms
proof (induction rnd g fr k rule: generateLoop.induct)
  case (1 rnd g fr k)
  show ?case
  proof (cases "fr = []")
    case True
    with "1.prems" show ?thesis by simp
  next
    case False
    with "1.prems" obtain g2 fr2 k2 where
      body: "loopBody rnd g fr k = Inr (g2, fr2, k2)"
      and rest: "generateLoop rnd g2 fr2 k2 = Inr (g', fr', k')"
      by (auto simp: generateLoop_step split: sum.splits)
    from "1.IH"[OF False body refl refl rest] loopBody_dims[OF body]
    show ?thesis by simp
  qed
qed

lemma generateMaze_shape:
  assumes "0 < w" "0 < h" "generateMaze rnd (Grid_new w h) = Inr (g', fr', k')"
  shows "wf_grid g' \<and> width g' = w \<and> height g' = h"
proof -
  from generateMaze_start_inv[OF assms(1,2), of rnd] obtain g1 fr where
    g1: "cellAtPosition_assign (Grid_new w h) (startPos rnd (Grid_new w h)) Path = Inr g1"
    and start: "generateMaze_start rnd (Grid_new w h) = Inr (g1, fr, 2)"
    and inv: "loopInv (startPos rnd (Grid_new w h)) g1 fr"
    by blast
  from generateLoop_inv[OF inv, of rnd 2] obtain g2 k2 where
    loop: "generateLoop rnd g1 fr 2 = Inr (g2, [], k2)"
    and inv2: "loopInv (startPos rnd (Grid_new w h)) g2 []"
    by blast
  from start loop assms(3) have "g' = g2" by (simp add: generateMaze_def)
  with inv2 generateLoop_dims[OF loop] assign_dims(1,2)[OF g1]
  show ?thesis by (simp add: loopInv_def Grid_new_def)
qed

subsection \<open>Counting iterations\<close>

definition latticeWalls :: "Position \<Rightarrow> Grid \<Rightarrow> Position set" where
  "latticeWalls s g = {p. cellAtPosition g p = Inr Wall \<and> sameLattice s p}"

lemma finite_latticeWalls: "finite (latticeWalls s g)"
  by (rule finite_subset[OF _ finite_inGrid[of g]])
     (auto simp: latticeWalls_def dest: cellAtPosition_Inr_inGrid)

lemma generateLoop_iterations_le:
  assumes "loopInv s g fr"
  shows "generateLoop_iterations rnd g fr k \<le> card (latticeWalls s g)"
  using assms
proof (induction rnd g fr k rule: generateLoop_iterations.induct)
  case (1 rnd g fr k)
  show ?case
  proof (cases "fr = []")
    case True
    then show ?thesis by simp
  next
    case False
    define c where "c = fr ! (rnd k mod length fr)"
    from False have "c \<in> set fr" by (simp add: c_def)
    with "1.prems" have cL: "sameLattice s c" by (simp add: loopInv_def)
    from loopBody_inv[OF "1.prems" False, of rnd k] obtain g2 fr' where
      cW: "cellAtPosition g c = Inr Wall"
      and body: "loopBody rnd g fr k = Inr (g2, fr', k + 2)" and inv': "loopInv s g2 fr'"
      unfolding c_def by blast
    have "latticeWalls s g2 \<subseteq> latticeWalls s g"
      using loopBody_grid(2)[OF body] by (auto simp: latticeWalls_def)
    moreover have "c \<in> latticeWalls s g" using cW cL by (simp add: latticeWalls_def)
    moreover have "c \<notin> latticeWalls s g2"
      using loopBody_grid(1)[OF body] by (simp add: latticeWalls_def c_def)
    ultimately have "latticeWalls s g2 \<subset> latticeWalls s g" by blast
    then have "card (latticeWalls s g2) < card (latticeWalls s g)"
      by (rule psubset_card_mono[OF finite_latticeWalls])
    with "1.IH"[OF False body refl refl inv'] False body show ?thesis
      by (simp add: generateLoop_iterations_step)
  qed
qed

lemma lattice_rows_bound:
  "card {p. isPositionInGrid (Grid_new w h) p \<and> sameLattice s p}
     \<le> nat ((h + 1) div 2) * nat ((w + 1) div 2)"
proof -
  let ?L = "{p. isPositionInGrid (Grid_new w h) p \<and> sameLattice s p}"
  let ?f = "\<lambda>p. (row p div 2, col p div 2)"
  have inj: "inj_on ?f ?L"
  proof (rule inj_onI)
    fix p q assume p: "p \<in> ?L" and q: "q \<in> ?L" and e: "?f p = ?f q"
    from p q have "row p mod 2 = row q mod 2" "col p mod 2 = col q mod 2"
      by (simp_all add: sameLattice_def)
    with e have "row p = row q" "col p = col q"
      by (metis div_mult_mod_eq prod.inject)+
    then show "p = q" by simp
  qed
  have "?f ` ?L \<subseteq> {0..<(h + 1) div 2} \<times> {0..<(w + 1) div 2}"
    by (auto simp: isPositionInGrid_def Grid_new_def)
  then have "card (?f ` ?L) \<le> card ({0..<(h + 1) div 2} \<times> {0..<(w + 1) div 2})"
    by (intro card_mono) auto
  also have "\<dots> = nat ((h + 1) div 2) * nat ((w + 1) div 2)"
    by (simp add: card_cartesian_product)
  finally show ?thesis by (simp add: card_image[OF inj])
qed

lemma generateMaze_iterations_le:
  assumes "0 < w" "0 < h"
  shows "generateMaze_iterations rnd (Grid_new w h) + 1 \<le> nat ((h + 1) div 2) * nat ((w + 1) div 2)"
proof -
  define s where "s = startPos rnd (Grid_new w h)"
  let ?L = "{p. isPositionInGrid (Grid_new w h) p \<and> sameLattice s p}"
  from generateMaze_start_inv[OF assms, of rnd] obtain g1 fr where
    g1: "cellAtPosition_assign (Grid_new w h) s Path = Inr g1"
    and start: "generateMaze_start rnd (Grid_new w h) = Inr (g1, fr, 2)"
    and r1: "\<forall>q. cellAtPosition g1 q = (if q = s then Inr Path else cellAtPosition (Grid_new w h) q)"
    and inv: "loopInv s g1 fr"
    unfolding s_def by blast
  have sin: "s \<in> ?L"
    using startPos_inGrid[OF assms, of rnd] by (simp add: s_def sameLattice_def)
  have fin: "finite ?L" by (rule finite_subset[OF _ finite_inGrid[of "Grid_new w h"]]) auto
  have "latticeWalls s g1 \<subseteq> ?L - {s}"
    using r1 by (auto simp: latticeWalls_def dest: cellAtPosition_Inr_inGrid split: if_splits)
  then have "card (latticeWalls s g1) \<le> card (?L - {s})"
    by (intro card_mono) (use fin in auto)
  also have "\<dots> = card ?L - 1" using sin fin by (simp add: card_Diff_singleton)
  finally have "card (latticeWalls s g1) + 1 \<le> card ?L"
    using sin fin card_gt_0_iff[of ?L] by (auto simp: Suc_le_eq)
  moreover have "generateMaze_iterations rnd (Grid_new w h) \<le> card (latticeWalls s g1)"
    using start generateLoop_iterations_le[OF inv, of rnd 2]
    by (simp add: generateMaze_iterations_def)
  ultimately show ?thesis using lattice_rows_bound[of w h s] by linarith
qed

subsection \<open>The whole run\<close>

lemma generateMaze_inv:
  assumes "0 < w" "0 < h"
  shows "\<exists>g' k'. generateMaze rnd (Grid_new w h) = Inr (g', [], k')
           \<and> cellAtPosition g' (startPos rnd (Grid_new w h)) = Inr Path
           \<and> loopInv (startPos rnd (Grid_new w h)) g' []"
proof -
  define s where "s = startPos rnd (Grid_new w h)"
  from generateMaze_start_inv[OF assms, of rnd] obtain g1 fr where
    start: "generateMaze_start rnd (Grid_new w h) = Inr (g1, fr, 2)"
    and sP: "cellAtPosition g1 s = Inr Path"
    and inv: "loopInv s g1 fr"
    unfolding s_def by auto
  from generateLoop_inv[OF inv, of rnd 2] obtain g' k' where
    loop: "generateLoop rnd g1 fr 2 = Inr (g', [], k')" and inv': "loopInv s g' []"
    and mono: "\<forall>q. cellAtPosition g1 q = Inr Path \<longrightarrow> cellAtPosition g' q = Inr Path"
    by blast
  from start loop have "generateMaze rnd (Grid_new w h) = Inr (g', [], k')"
    by (simp add: generateMaze_def)
  moreover from sP mono have "cellAtPosition g' s = Inr Path" by blast
  ultimately show ?thesis using inv' unfolding s_def by blast
qed

section \<open>Properties of the maze generator\<close>

subsection \<open>The midpoint\<close>

text \<open>
  C8. For two positions exactly 2 apart in exactly one axis, the result of
  \<open>positionBetweenFrontierAndCell\<close> lies on that axis one step from each of them, and
  it is the only such position; for equal positions the result is that position.
\<close>

theorem midpoint_between:
  assumes "(row a = row b \<and> \<bar>col a - col b\<bar> = 2) \<or> (col a = col b \<and> \<bar>row a - row b\<bar> = 2)"
  shows "(row a = row b \<longrightarrow>
            row (positionBetweenFrontierAndCell a b) = row a
          \<and> \<bar>col (positionBetweenFrontierAndCell a b) - col a\<bar> = 1
          \<and> \<bar>col (positionBetweenFrontierAndCell a b) - col b\<bar> = 1
          \<and> (\<forall>m. row m = row a \<and> \<bar>col m - col a\<bar> = 1 \<and> \<bar>col m - col b\<bar> = 1
                 \<longrightarrow> m = positionBetweenFrontierAndCell a b))
       \<and> (col a = col b \<longrightarrow>
            col (positionBetweenFrontierAndCell a b) = col a
          \<and> \<bar>row (positionBetweenFrontierAndCell a b) - row a\<bar> = 1
          \<and> \<bar>row (positionBetweenFrontierAndCell a b) - row b\<bar> = 1
          \<and> (\<forall>m. col m = col a \<and> \<bar>row m - row a\<bar> = 1 \<and> \<bar>row m - row b\<bar> = 1
                 \<longrightarrow> m = positionBetweenFrontierAndCell a b))
       \<and> positionBetweenFrontierAndCell a a = a"
  using assms by (auto simp: positionBetweenFrontierAndCell_def)

theorem midpoint_between_witness:
  "((row \<lparr>row = 4, col = 3\<rparr> = row \<lparr>row = 4, col = 5\<rparr>
      \<and> \<bar>col \<lparr>row = 4, col = 3\<rparr> - col \<lparr>row = 4, col = 5\<rparr>\<bar> = 2)
    \<or> (col \<lparr>row = 4, col = 3\<rparr> = col \<lparr>row = 4, col = 5\<rparr>
      \<and> \<bar>row \<lparr>row = 4, col = 3\<rparr> - row \<lparr>row = 4, col = 5\<rparr>\<bar> = 2))
   \<and> positionBetweenFrontierAndCell \<lparr>row = 4, col = 3\<rparr> \<lparr>row = 4, col = 5\<rparr> = \<lparr>row = 4, col = 4\<rparr>
   \<and> positionBetweenFrontierAndCell \<lparr>row = 4, col = 3\<rparr> \<lparr>row = 4, col = 3\<rparr> = \<lparr>row = 4, col = 3\<rparr>"
  using midpoint_between [of "\<lparr>row = 4, col = 3\<rparr>" "\<lparr>row = 4, col = 5\<rparr>"]
  by (simp add: positionBetweenFrontierAndCell_def)

subsection \<open>No duplicate frontier entries\<close>

text \<open>
  C4. Whenever the loop test is evaluated during \<open>generateMaze\<close> on a grid built by the
  constructor with positive width and height, the frontier vector holds no position
  twice.
\<close>

theorem frontier_distinct_at_loop_head:
  assumes "0 < w" "0 < h" "atLoopHead rnd (Grid_new w h) (g, frontierCells, k)"
  shows "distinct frontierCells"
  using atLoopHead_inv[OF assms] by (simp add: loopInv_def)

theorem frontier_distinct_at_loop_head_witness:
  "(0::int) < 3 \<and> (0::int) < 3
   \<and> atLoopHead (constantDraws 0) (Grid_new 3 3)
        (\<lparr>cells = [[Path, Path, Path], [Wall, Wall, Wall], [Wall, Wall, Wall]],
           width = 3, height = 3\<rparr>,
         [\<lparr>row = 2, col = 0\<rparr>, \<lparr>row = 2, col = 2\<rparr>], 4)
   \<and> distinct [\<lparr>row = 2, col = 0\<rparr>, \<lparr>row = 2, col = (2::int)\<rparr>]"
  using frontier_distinct_at_loop_head[OF _ _ head_3x3_second] head_3x3_second
  by simp

subsection \<open>Frontier cells are walls\<close>

text \<open>
  C10. Whenever the loop test is evaluated, every position in the frontier holds a
  Wall; so when the frontier is not empty the chosen cell is a Wall, the assignment
  makes it a Path and changes no other cell.
\<close>

theorem frontier_cells_are_walls:
  assumes "0 < w" "0 < h" "atLoopHead rnd (Grid_new w h) (g, frontierCells, k)"
  shows "(\<forall>p \<in> set frontierCells. cellAtPosition g p = Inr Wall)
       \<and> (frontierCells \<noteq> [] \<longrightarrow>
            cellAtPosition g (frontierCells ! (rnd k mod length frontierCells)) = Inr Wall
          \<and> (\<exists>g1. cellAtPosition_assign g (frontierCells ! (rnd k mod length frontierCells)) Path = Inr g1
                \<and> cellAtPosition g1 (frontierCells ! (rnd k mod length frontierCells)) = Inr Path
                \<and> (\<forall>q. q \<noteq> frontierCells ! (rnd k mod length frontierCells)
                       \<longrightarrow> cellAtPosition g1 q = cellAtPosition g q)))"
proof -
  from atLoopHead_inv[OF assms] have inv: "loopInv (startPos rnd (Grid_new w h)) g frontierCells"
    by simp
  then have walls: "\<forall>p \<in> set frontierCells. cellAtPosition g p = Inr Wall"
    by (simp add: loopInv_def)
  moreover have "cellAtPosition g (frontierCells ! (rnd k mod length frontierCells)) = Inr Wall
      \<and> (\<exists>g1. cellAtPosition_assign g (frontierCells ! (rnd k mod length frontierCells)) Path = Inr g1
            \<and> cellAtPosition g1 (frontierCells ! (rnd k mod length frontierCells)) = Inr Path
            \<and> (\<forall>q. q \<noteq> frontierCells ! (rnd k mod length frontierCells)
                   \<longrightarrow> cellAtPosition g1 q = cellAtPosition g q))"
    if ne: "frontierCells \<noteq> []"
  proof -
    from loopBody_inv[OF inv ne, of rnd k] obtain g1 where
      w: "cellAtPosition g (frontierCells ! (rnd k mod length frontierCells)) = Inr Wall"
      and g1: "cellAtPosition_assign g (frontierCells ! (rnd k mod length frontierCells)) Path = Inr g1"
      by blast
    from assign_read[OF g1] w g1 show ?thesis by simp
  qed
  ultimately show ?thesis by blast
qed

theorem frontier_cells_are_walls_witness:
  "(0::int) < 3 \<and> (0::int) < 3
   \<and> atLoopHead (constantDraws 0) (Grid_new 3 3)
        (\<lparr>cells = [[Path, Path, Path], [Wall, Wall, Wall], [Wall, Wall, Wall]],
           width = 3, height = 3\<rparr>,
         [\<lparr>row = 2, col = 0\<rparr>, \<lparr>row = 2, col = 2\<rparr>], 4)
   \<and> cellAtPosition \<lparr>cells = [[Path, Path, Path], [Wall, Wall, Wall], [Wall, Wall, Wall]],
           width = 3, height = 3\<rparr> \<lparr>row = 2, col = 0\<rparr> = Inr Wall
   \<and> cellAtPosition \<lparr>cells = [[Path, Path, Path], [Wall, Wall, Wall], [Wall, Wall, Wall]],
           width = 3, height = 3\<rparr> \<lparr>row = 2, col = 2\<rparr> = Inr Wall"
  using frontier_cells_are_walls[OF _ _ head_3x3_second] head_3x3_second
  by simp

subsection \<open>The neighbour set is never empty\<close>

text \<open>
  C6. Whenever an iteration starts (the loop test is evaluated with a non-empty
  frontier), marking the chosen frontier cell succeeds and the neighbour set computed
  from it, the Path cells two steps away, is not empty: the branch that skips the
  carving is not taken.
\<close>

theorem neighbours_never_empty:
  assumes "0 < w" "0 < h" "atLoopHead rnd (Grid_new w h) (g, frontierCells, k)"
    and "frontierCells \<noteq> []"
  shows "\<exists>g1 neighbours.
           cellAtPosition_assign g (frontierCells ! (rnd k mod length frontierCells)) Path = Inr g1
         \<and> frontierCellsForPositionMatchingCell g1
              (frontierCells ! (rnd k mod length frontierCells)) Path = Inr neighbours
         \<and> neighbours \<noteq> []"
proof -
  from atLoopHead_inv[OF assms(1-3)]
  have "loopInv (startPos rnd (Grid_new w h)) g frontierCells" by simp
  from loopBody_inv[OF this assms(4), of rnd k] show ?thesis by blast
qed

theorem neighbours_never_empty_witness:
  "(0::int) < 3 \<and> (0::int) < 3
   \<and> atLoopHead (constantDraws 0) (Grid_new 3 3)
        (\<lparr>cells = [[Path, Path, Path], [Wall, Wall, Wall], [Wall, Wall, Wall]],
           width = 3, height = 3\<rparr>,
         [\<lparr>row = 2, col = 0\<rparr>, \<lparr>row = 2, col = 2\<rparr>], 4)
   \<and> [\<lparr>row = 2, col = 0\<rparr>, \<lparr>row = 2, col = (2::int)\<rparr>] \<noteq> []
   \<and> (\<exists>g1 neighbours.
        cellAtPosition_assign
          \<lparr>cells = [[Path, Path, Path], [Wall, Wall, Wall], [Wall, Wall, Wall]],
             width = 3, height = 3\<rparr>
          ([\<lparr>row = 2, col = 0\<rparr>, \<lparr>row = 2, col = 2\<rparr>]
             ! (constantDraws 0 4 mod length [\<lparr>row = 2, col = 0\<rparr>, \<lparr>row = 2, col = (2::int)\<rparr>]))
          Path = Inr g1
      \<and> frontierCellsForPositionMatchingCell g1
          ([\<lparr>row = 2, col = 0\<rparr>, \<lparr>row = 2, col = 2\<rparr>]
             ! (constantDraws 0 4 mod length [\<lparr>row = 2, col = 0\<rparr>, \<lparr>row = 2, col = (2::int)\<rparr>]))
          Path = Inr neighbours
      \<and> neighbours \<noteq> [])"
proof -
  have ne: "[\<lparr>row = 2, col = 0\<rparr>, \<lparr>row = 2, col = (2::int)\<rparr>] \<noteq> []" by simp
  have pos: "(0::int) < 3" by simp
  from neighbours_never_empty[OF pos pos head_3x3_second ne] head_3x3_second
  show ?thesis by simp
qed

subsection \<open>Connectivity\<close>

text \<open>
  C1. On a grid built by the constructor with positive width and height,
  \<open>generateMaze\<close> returns with an empty frontier, the start cell is a Path, and any
  two Path cells of the final grid are joined by a chain of Path cells in which
  consecutive cells are one step apart horizontally or vertically.
\<close>

theorem generateMaze_connected:
  assumes "0 < w" "0 < h"
  shows "\<exists>g' k'. generateMaze rnd (Grid_new w h) = Inr (g', [], k')
           \<and> cellAtPosition g' (startPos rnd (Grid_new w h)) = Inr Path
           \<and> (\<forall>p q. cellAtPosition g' p = Inr Path \<longrightarrow> cellAtPosition g' q = Inr Path
                  \<longrightarrow> pathConnected g' p q)"
proof -
  from generateMaze_inv[OF assms, of rnd] obtain g' k' where
    run: "generateMaze rnd (Grid_new w h) = Inr (g', [], k')"
    and sP: "cellAtPosition g' (startPos rnd (Grid_new w h)) = Inr Path"
    and inv: "loopInv (startPos rnd (Grid_new w h)) g' []"
    by blast
  from inv have "\<forall>p q. cellAtPosition g' p = Inr Path \<longrightarrow> cellAtPosition g' q = Inr Path
                  \<longrightarrow> pathConnected g' p q"
    by (simp add: loopInv_def)
  with run sP show ?thesis by blast
qed

theorem generateMaze_connected_witness:
  "(0::int) < 3 \<and> (0::int) < 3
   \<and> generateMaze (constantDraws 0) (Grid_new 3 3) =
       Inr (\<lparr>cells = [[Path, Path, Path], [Path, Wall, Wall], [Path, Path, Path]],
              width = 3, height = 3\<rparr>, [], 8)
   \<and> cellAtPosition \<lparr>cells = [[Path, Path, Path], [Path, Wall, Wall], [Path, Path, Path]],
              width = 3, height = 3\<rparr> \<lparr>row = 0, col = 2\<rparr> = Inr Path
   \<and> cellAtPosition \<lparr>cells = [[Path, Path, Path], [Path, Wall, Wall], [Path, Path, Path]],
              width = 3, height = 3\<rparr> \<lparr>row = 2, col = 2\<rparr> = Inr Path
   \<and> pathConnected \<lparr>cells = [[Path, Path, Path], [Path, Wall, Wall], [Path, Path, Path]],
              width = 3, height = 3\<rparr> \<lparr>row = 0, col = 2\<rparr> \<lparr>row = 2, col = 2\<rparr>"
proof -
  have a: "cellAtPosition \<lparr>cells = [[Path, Path, Path], [Path, Wall, Wall], [Path, Path, Path]],
              width = 3, height = 3\<rparr> \<lparr>row = 0, col = 2\<rparr> = Inr Path"
    by code_simp
  have b: "cellAtPosition \<lparr>cells = [[Path, Path, Path], [Path, Wall, Wall], [Path, Path, Path]],
              width = 3, height = 3\<rparr> \<lparr>row = 2, col = 2\<rparr> = Inr Path"
    by code_simp
  from generateMaze_connected[of 3 3 "constantDraws 0"] run_3x3 a b
  show ?thesis by auto
qed

subsection \<open>Bounds safety\<close>

text \<open>
  C3. On a grid built by the constructor with positive width and height the whole
  run returns normally: no \<^verbatim>\<open>assert\<close> of \<open>cellAtPosition\<close> fails and no vector is
  indexed outside its range. In particular the start cell is inside the grid, and in
  every iteration the chosen frontier cell and the carved midpoint are inside the grid
  and the iteration completes.
\<close>

theorem generateMaze_in_bounds:
  assumes "0 < w" "0 < h"
  shows "(\<exists>st. generateMaze rnd (Grid_new w h) = Inr st)
       \<and> isPositionInGrid (Grid_new w h) (startPos rnd (Grid_new w h))
       \<and> (\<forall>g frontierCells k.
            atLoopHead rnd (Grid_new w h) (g, frontierCells, k) \<and> frontierCells \<noteq> [] \<longrightarrow>
              isPositionInGrid g (frontierCells ! (rnd k mod length frontierCells))
            \<and> (\<exists>g1 neighbours.
                  cellAtPosition_assign g (frontierCells ! (rnd k mod length frontierCells)) Path = Inr g1
                \<and> frontierCellsForPositionMatchingCell g1
                     (frontierCells ! (rnd k mod length frontierCells)) Path = Inr neighbours
                \<and> isPositionInGrid g
                     (positionBetweenFrontierAndCell
                        (neighbours ! (rnd (k + 1) mod length neighbours))
                        (frontierCells ! (rnd k mod length frontierCells))))
            \<and> (\<exists>st'. loopBody rnd g frontierCells k = Inr st'))"
proof (intro conjI allI impI)
  from generateMaze_inv[OF assms, of rnd]
  show "\<exists>st. generateMaze rnd (Grid_new w h) = Inr st" by blast
  show "isPositionInGrid (Grid_new w h) (startPos rnd (Grid_new w h))"
    by (rule startPos_inGrid[OF assms])
next
  fix g frontierCells k
  assume h: "atLoopHead rnd (Grid_new w h) (g, frontierCells, k) \<and> frontierCells \<noteq> []"
  then have inv: "loopInv (startPos rnd (Grid_new w h)) g frontierCells"
    using atLoopHead_inv[OF assms, of rnd "(g, frontierCells, k)"] by simp
  from h have ne: "frontierCells \<noteq> []" by simp
  from loopBody_inv[OF inv ne, of rnd k] obtain g1 ns g2 fr' where
    f: "cellAtPosition g (frontierCells ! (rnd k mod length frontierCells)) = Inr Wall"
      "cellAtPosition_assign g (frontierCells ! (rnd k mod length frontierCells)) Path = Inr g1"
      "frontierCellsForPositionMatchingCell g1 (frontierCells ! (rnd k mod length frontierCells)) Path = Inr ns"
      "isPositionInGrid g (positionBetweenFrontierAndCell (ns ! (rnd (k + 1) mod length ns))
          (frontierCells ! (rnd k mod length frontierCells)))"
      "loopBody rnd g frontierCells k = Inr (g2, fr', k + 2)"
    by blast
  from f(1) show "isPositionInGrid g (frontierCells ! (rnd k mod length frontierCells))"
    by (rule cellAtPosition_Inr_inGrid)
  from f(2,3,4) show "\<exists>g1 neighbours.
      cellAtPosition_assign g (frontierCells ! (rnd k mod length frontierCells)) Path = Inr g1
    \<and> frontierCellsForPositionMatchingCell g1
         (frontierCells ! (rnd k mod length frontierCells)) Path = Inr neighbours
    \<and> isPositionInGrid g
         (positionBetweenFrontierAndCell
            (neighbours ! (rnd (k + 1) mod length neighbours))
            (frontierCells ! (rnd k mod length frontierCells)))"
    by blast
  from f(5) show "\<exists>st'. loopBody rnd g frontierCells k = Inr st'" by blast
qed

theorem generateMaze_in_bounds_witness:
  "(0::int) < 3 \<and> (0::int) < 3
   \<and> (\<exists>st. generateMaze (constantDraws 0) (Grid_new 3 3) = Inr st)
   \<and> isPositionInGrid (Grid_new 3 3) (startPos (constantDraws 0) (Grid_new 3 3))
   \<and> atLoopHead (constantDraws 0) (Grid_new 3 3)
        (\<lparr>cells = [[Path, Path, Path], [Wall, Wall, Wall], [Wall, Wall, Wall]],
           width = 3, height = 3\<rparr>,
         [\<lparr>row = 2, col = 0\<rparr>, \<lparr>row = 2, col = 2\<rparr>], 4)
   \<and> [\<lparr>row = 2, col = 0\<rparr>, \<lparr>row = 2, col = (2::int)\<rparr>] \<noteq> []
   \<and> isPositionInGrid
        \<lparr>cells = [[Path, Path, Path], [Wall, Wall, Wall], [Wall, Wall, Wall]],
           width = 3, height = 3\<rparr>
        ([\<lparr>row = 2, col = 0\<rparr>, \<lparr>row = 2, col = 2\<rparr>]
           ! (constantDraws 0 4 mod length [\<lparr>row = 2, col = 0\<rparr>, \<lparr>row = 2, col = (2::int)\<rparr>]))
   \<and> (\<exists>st'. loopBody (constantDraws 0)
        \<lparr>cells = [[Path, Path, Path], [Wall, Wall, Wall], [Wall, Wall, Wall]],
           width = 3, height = 3\<rparr>
        [\<lparr>row = 2, col = 0\<rparr>, \<lparr>row = 2, col = 2\<rparr>] 4 = Inr st')"
proof -
  have pos: "(0::int) < 3" by simp
  have ne: "[\<lparr>row = 2, col = 0\<rparr>, \<lparr>row = 2, col = (2::int)\<rparr>] \<noteq> []" by simp
  from generateMaze_in_bounds[OF pos pos, of "constantDraws 0"] head_3x3_second ne pos
  show ?thesis by blast
qed

subsection \<open>Monotonicity\<close>

text \<open>
  C5. Every step of \<open>generateMaze\<close> that changes the grid (marking the start cell, one
  iteration of the loop, and hence the whole run) leaves each cell as it was or makes
  it a Path; a cell that is a Path stays a Path. This holds for every grid and every
  sequence of draws.
\<close>

theorem path_cells_only_grow:
  "(generateMaze_start rnd g = Inr (g1, fr1, k1) \<longrightarrow>
      (\<forall>q. (cellAtPosition g1 q = cellAtPosition g q \<or> cellAtPosition g1 q = Inr Path)
         \<and> (cellAtPosition g q = Inr Path \<longrightarrow> cellAtPosition g1 q = Inr Path)))
 \<and> (loopBody rnd g fr k = Inr (g2, fr2, k2) \<longrightarrow>
      (\<forall>q. (cellAtPosition g2 q = cellAtPosition g q \<or> cellAtPosition g2 q = Inr Path)
         \<and> (cellAtPosition g q = Inr Path \<longrightarrow> cellAtPosition g2 q = Inr Path)))
 \<and> (generateMaze rnd g = Inr (g3, fr3, k3) \<longrightarrow>
      (\<forall>q. (cellAtPosition g3 q = cellAtPosition g q \<or> cellAtPosition g3 q = Inr Path)
         \<and> (cellAtPosition g q = Inr Path \<longrightarrow> cellAtPosition g3 q = Inr Path)))"
proof (intro conjI impI allI)
  fix q
  assume a: "generateMaze_start rnd g = Inr (g1, fr1, k1)"
  from generateMaze_start_changes[OF a, of q]
  show "cellAtPosition g1 q = cellAtPosition g q \<or> cellAtPosition g1 q = Inr Path" .
  then show "cellAtPosition g q = Inr Path \<Longrightarrow> cellAtPosition g1 q = Inr Path" by auto
next
  fix q
  assume a: "loopBody rnd g fr k = Inr (g2, fr2, k2)"
  from loopBody_changes[OF a, of q]
  show "cellAtPosition g2 q = cellAtPosition g q \<or> cellAtPosition g2 q = Inr Path" .
  then show "cellAtPosition g q = Inr Path \<Longrightarrow> cellAtPosition g2 q = Inr Path" by auto
next
  fix q
  assume a: "generateMaze rnd g = Inr (g3, fr3, k3)"
  then obtain ga fa ka where s: "generateMaze_start rnd g = Inr (ga, fa, ka)"
    and l: "generateLoop rnd ga fa ka = Inr (g3, fr3, k3)"
    by (auto simp: generateMaze_def split: sum.splits)
  from generateMaze_start_changes[OF s, of q] generateLoop_changes[OF l, of q]
  show "cellAtPosition g3 q = cellAtPosition g q \<or> cellAtPosition g3 q = Inr Path" by auto
  then show "cellAtPosition g q = Inr Path \<Longrightarrow> cellAtPosition g3 q = Inr Path" by auto
qed

theorem path_cells_only_grow_witness:
  "loopBody (constantDraws 0)
     \<lparr>cells = [[Path, Wall, Wall], [Wall, Wall, Wall], [Wall, Wall, Wall]], width = 3, height = 3\<rparr>
     [\<lparr>row = 0, col = 2\<rparr>, \<lparr>row = 2, col = 0\<rparr>] 2 =
     Inr (\<lparr>cells = [[Path, Path, Path], [Wall, Wall, Wall], [Wall, Wall, Wall]],
            width = 3, height = 3\<rparr>,
          [\<lparr>row = 2, col = 0\<rparr>, \<lparr>row = 2, col = 2\<rparr>], 4)
   \<and> cellAtPosition
        \<lparr>cells = [[Path, Wall, Wall], [Wall, Wall, Wall], [Wall, Wall, Wall]], width = 3, height = 3\<rparr>
        \<lparr>row = 0, col = 0\<rparr> = Inr Path
   \<and> cellAtPosition
        \<lparr>cells = [[Path, Path, Path], [Wall, Wall, Wall], [Wall, Wall, Wall]], width = 3, height = 3\<rparr>
        \<lparr>row = 0, col = 0\<rparr> = Inr Path
   \<and> generateMaze (constantDraws 0) (Grid_new 3 3) =
       Inr (\<lparr>cells = [[Path, Path, Path], [Path, Wall, Wall], [Path, Path, Path]],
              width = 3, height = 3\<rparr>, [], 8)
   \<and> (cellAtPosition
        \<lparr>cells = [[Path, Path, Path], [Path, Wall, Wall], [Path, Path, Path]], width = 3, height = 3\<rparr>
        \<lparr>row = 1, col = 1\<rparr> = cellAtPosition (Grid_new 3 3) \<lparr>row = 1, col = 1\<rparr>
      \<or> cellAtPosition
        \<lparr>cells = [[Path, Path, Path], [Path, Wall, Wall], [Path, Path, Path]], width = 3, height = 3\<rparr>
        \<lparr>row = 1, col = 1\<rparr> = Inr Path)"
proof -
  have a: "cellAtPosition
        \<lparr>cells = [[Path, Wall, Wall], [Wall, Wall, Wall], [Wall, Wall, Wall]], width = 3, height = 3\<rparr>
        \<lparr>row = 0, col = 0\<rparr> = Inr Path"
    by code_simp
  from path_cells_only_grow[of "constantDraws 0"
      "\<lparr>cells = [[Path, Wall, Wall], [Wall, Wall, Wall], [Wall, Wall, Wall]], width = 3, height = 3\<rparr>"
      _ _ _ "[\<lparr>row = 0, col = 2\<rparr>, \<lparr>row = 2, col = 0\<rparr>]" 2
      "\<lparr>cells = [[Path, Path, Path], [Wall, Wall, Wall], [Wall, Wall, Wall]], width = 3, height = 3\<rparr>"
      "[\<lparr>row = 2, col = 0\<rparr>, \<lparr>row = 2, col = 2\<rparr>]" 4] body_3x3 a
  have b: "cellAtPosition
        \<lparr>cells = [[Path, Path, Path], [Wall, Wall, Wall], [Wall, Wall, Wall]], width = 3, height = 3\<rparr>
        \<lparr>row = 0, col = 0\<rparr> = Inr Path"
    by blast
  from path_cells_only_grow[of "constantDraws 0" "Grid_new 3 3" _ _ _ _ _ _ _ _
      "\<lparr>cells = [[Path, Path, Path], [Path, Wall, Wall], [Path, Path, Path]], width = 3, height = 3\<rparr>"
      "[]" 8] run_3x3
  have c: "cellAtPosition
        \<lparr>cells = [[Path, Path, Path], [Path, Wall, Wall], [Path, Path, Path]], width = 3, height = 3\<rparr>
        \<lparr>row = 1, col = 1\<rparr> = cellAtPosition (Grid_new 3 3) \<lparr>row = 1, col = 1\<rparr>
      \<or> cellAtPosition
        \<lparr>cells = [[Path, Path, Path], [Path, Wall, Wall], [Path, Path, Path]], width = 3, height = 3\<rparr>
        \<lparr>row = 1, col = 1\<rparr> = Inr Path"
    by blast
  from body_3x3 a b run_3x3 c show ?thesis by blast
qed

subsection \<open>The smallest grids\<close>

text \<open>
  C7. On a grid with positive width and height in which no cell has a position two
  steps away inside the grid (1 by 1 and 2 by 2 are such grids),
  \<open>generateMaze\<close> returns right after marking the start cell: the loop runs zero
  times, the frontier is empty, two draws were made, the start cell is a Path and
  every other cell of the grid is still a Wall.
\<close>

theorem tiny_grid_only_start:
  assumes "0 < w" "0 < h"
    and "\<forall>p. isPositionInGrid (Grid_new w h) p \<longrightarrow>
           (\<forall>q \<in> set (step2Positions p). \<not> isPositionInGrid (Grid_new w h) q)"
  shows "\<exists>g1. cellAtPosition_assign (Grid_new w h) (startPos rnd (Grid_new w h)) Path = Inr g1
           \<and> generateMaze rnd (Grid_new w h) = Inr (g1, [], 2)
           \<and> generateMaze_iterations rnd (Grid_new w h) = 0
           \<and> (\<forall>q. isPositionInGrid (Grid_new w h) q \<longrightarrow>
                  cellAtPosition g1 q =
                    (if q = startPos rnd (Grid_new w h) then Inr Path else Inr Wall))"
proof -
  define s where "s = startPos rnd (Grid_new w h)"
  from generateMaze_start_inv[OF assms(1,2), of rnd] obtain g1 fr where
    g1: "cellAtPosition_assign (Grid_new w h) s Path = Inr g1"
    and ffr: "frontierCellsForPositionMatchingCell g1 s Wall = Inr fr"
    and start: "generateMaze_start rnd (Grid_new w h) = Inr (g1, fr, 2)"
    and r1: "\<forall>q. cellAtPosition g1 q = (if q = s then Inr Path else cellAtPosition (Grid_new w h) q)"
    unfolding s_def by blast
  have sin: "isPositionInGrid (Grid_new w h) s"
    unfolding s_def by (rule startPos_inGrid[OF assms(1,2)])
  have "q \<notin> set fr" for q
  proof
    assume "q \<in> set fr"
    then have q2: "q \<in> set (step2Positions s)" and "cellAtPosition g1 q = Inr Wall"
      using frontierCells_Inr[OF ffr] by simp_all
    then have "isPositionInGrid g1 q" by (auto dest: cellAtPosition_Inr_inGrid)
    then have "isPositionInGrid (Grid_new w h) q" by (simp add: assign_dims(4)[OF g1])
    with assms(3) sin q2 show False by blast
  qed
  then have fr: "fr = []" by (cases fr) auto
  from start fr have "generateMaze rnd (Grid_new w h) = Inr (g1, [], 2)"
    by (simp add: generateMaze_def)
  moreover from start fr have "generateMaze_iterations rnd (Grid_new w h) = 0"
    by (simp add: generateMaze_iterations_def)
  moreover have "\<forall>q. isPositionInGrid (Grid_new w h) q \<longrightarrow>
                  cellAtPosition g1 q = (if q = s then Inr Path else Inr Wall)"
    using r1 by (simp add: Grid_new_read)
  ultimately show ?thesis using g1 unfolding s_def by blast
qed

theorem tiny_grid_only_start_witness:
  "(0::int) < 2 \<and> (0::int) < 2
   \<and> generateMaze (constantDraws 3) (Grid_new 2 2) =
       Inr (\<lparr>cells = [[Wall, Wall], [Wall, Path]], width = 2, height = 2\<rparr>, [], 2)
   \<and> generateMaze_iterations (constantDraws 3) (Grid_new 2 2) = 0
   \<and> startPos (constantDraws 3) (Grid_new 2 2) = \<lparr>row = 1, col = 1\<rparr>"
proof -
  have pos: "(0::int) < 2" by simp
  have a: "cellAtPosition_assign (Grid_new 2 2) (startPos (constantDraws 3) (Grid_new 2 2)) Path
             = Inr \<lparr>cells = [[Wall, Wall], [Wall, Path]], width = 2, height = 2\<rparr>"
    by code_simp
  have b: "startPos (constantDraws 3) (Grid_new 2 2) = \<lparr>row = 1, col = 1\<rparr>"
    by code_simp
  from tiny_grid_only_start[OF pos pos small_grid_no_step2, of "constantDraws 3"] a b pos
  show ?thesis by auto
qed

subsection \<open>Printing reads the grid\<close>

text \<open>
  C9. \<open>print\<close> returns the grid it was given, and appends to the output one line per
  row of the grid, top to bottom, each line the glyphs of the row's cells in column
  order (the wall glyph for a Wall, a space for a Path) followed by a line feed.
  Printing again, after any amount of other output, appends the same text again.
  After \<open>generateMaze\<close> on a grid built with positive width and height there are
  \<open>height\<close> lines of \<open>width\<close> glyphs each.
\<close>

theorem print_is_pure_read:
  "print g out = (g, out @ render g)
   \<and> print (fst (print g out)) out' = (g, out' @ render g)
   \<and> render g = concat (map (\<lambda>cellRow. concat (map glyph cellRow) @ [CHR 0x0A]) (cells g))
   \<and> (0 < w \<and> 0 < h \<and> generateMaze rnd (Grid_new w h) = Inr (g, fr, k) \<longrightarrow>
        length (cells g) = nat h \<and> (\<forall>cellRow \<in> set (cells g). length cellRow = nat w))"
proof (intro conjI impI)
  show "print g out = (g, out @ render g)" by (rule print_render)
  show "print (fst (print g out)) out' = (g, out' @ render g)" by (simp add: print_render)
  show "render g = concat (map (\<lambda>cellRow. concat (map glyph cellRow) @ [CHR 0x0A]) (cells g))"
    by (simp add: render_def render_lines_def comp_def)
next
  assume "0 < w \<and> 0 < h \<and> generateMaze rnd (Grid_new w h) = Inr (g, fr, k)"
  then have "wf_grid g \<and> width g = w \<and> height g = h"
    using generateMaze_shape[of w h rnd g fr k] by simp
  then show "length (cells g) = nat h" "\<forall>cellRow \<in> set (cells g). length cellRow = nat w"
    by (simp_all add: wf_grid_def)
qed

theorem print_is_pure_read_witness:
  "(0::int) < 3 \<and> (0::int) < 3
   \<and> generateMaze (constantDraws 0) (Grid_new 3 3) =
       Inr (\<lparr>cells = [[Path, Path, Path], [Path, Wall, Wall], [Path, Path, Path]],
              width = 3, height = 3\<rparr>, [], 8)
   \<and> print \<lparr>cells = [[Path, Path, Path], [Path, Wall, Wall], [Path, Path, Path]],
              width = 3, height = 3\<rparr> []
       = (\<lparr>cells = [[Path, Path, Path], [Path, Wall, Wall], [Path, Path, Path]],
              width = 3, height = 3\<rparr>,
          ''   '' @ [CHR 0x0A] @ '' '' @ wallGlyph @ wallGlyph @ [CHR 0x0A] @ ''   '' @ [CHR 0x0A])
   \<and> length (cells \<lparr>cells = [[Path, Path, Path], [Path, Wall, Wall], [Path, Path, Path]],
              width = 3, height = 3\<rparr>) = nat 3"
proof -
  have pos: "(0::int) < 3" by simp
  have r: "render \<lparr>cells = [[Path, Path, Path], [Path, Wall, Wall], [Path, Path, Path]],
              width = 3, height = 3\<rparr>
           = ''   '' @ [CHR 0x0A] @ '' '' @ wallGlyph @ wallGlyph @ [CHR 0x0A] @ ''   '' @ [CHR 0x0A]"
    by (simp add: render_def render_lines_def glyph_def)
  from print_is_pure_read[of
      "\<lparr>cells = [[Path, Path, Path], [Path, Wall, Wall], [Path, Path, Path]], width = 3, height = 3\<rparr>"
      "[]" "[]" 3 3 "constantDraws 0" "[]" 8] run_3x3 r pos
  show ?thesis by simp
qed

subsection \<open>Termination and the number of iterations\<close>

text \<open>
  C2, as the specification states it, fails: on the 3 by 3 grid with every draw 0 the
  loop runs 3 times, more than \<open>(3 * 3) / 4\<close>, whether the quotient is rounded down or
  not.
\<close>

theorem iterations_quarter_bound_counterexample:
  "(0::int) < 3
   \<and> generateMaze_iterations (constantDraws 0) (Grid_new 3 3) = 3
   \<and> \<not> (4 * generateMaze_iterations (constantDraws 0) (Grid_new 3 3) \<le> 3 * 3)
   \<and> \<not> (generateMaze_iterations (constantDraws 0) (Grid_new 3 3) \<le> (3 * 3) div 4)"
proof -
  have e: "generateMaze_iterations (constantDraws 0) (Grid_new 3 3) = 3" by code_simp
  show ?thesis by (simp add: e)
qed

text \<open>
  C2, amended. For every grid built with positive width and height and every sequence
  of draws, \<open>generateMaze\<close> returns with an empty frontier, and the number of loop
  iterations is at most \<open>\<lceil>width / 2\<rceil> * \<lceil>height / 2\<rceil> - 1\<close>: each iteration turns one
  Wall on the start cell's step-2 lattice into a Path, and the start cell itself is
  already a Path.
\<close>

theorem generateMaze_terminates_bounded:
  assumes "0 < w" "0 < h"
  shows "\<exists>g' k'. generateMaze rnd (Grid_new w h) = Inr (g', [], k')
           \<and> generateMaze_iterations rnd (Grid_new w h) + 1
                \<le> nat ((w + 1) div 2) * nat ((h + 1) div 2)"
proof -
  from generateMaze_inv[OF assms, of rnd] obtain g' k' where
    "generateMaze rnd (Grid_new w h) = Inr (g', [], k')" by blast
  with generateMaze_iterations_le[OF assms, of rnd] show ?thesis
    by (auto simp: mult.commute)
qed

theorem generateMaze_terminates_bounded_witness:
  "(0::int) < 3 \<and> (0::int) < 3
   \<and> generateMaze (constantDraws 0) (Grid_new 3 3) =
       Inr (\<lparr>cells = [[Path, Path, Path], [Path, Wall, Wall], [Path, Path, Path]],
              width = 3, height = 3\<rparr>, [], 8)
   \<and> generateMaze_iterations (constantDraws 0) (Grid_new 3 3) + 1
        \<le> nat ((3 + 1) div 2) * nat ((3 + 1) div 2)"
proof -
  have pos: "(0::int) < 3" by simp
  from generateMaze_terminates_bounded[OF pos pos, of "constantDraws 0"] run_3x3 pos
  show ?thesis by auto
qed

end
